theory Spec2Isabelle
  imports Main "HOL-Library.Word" "HOL-Library.Sublist"
begin

section \<open>JavaScript strings\<close>

text \<open>
  A JavaScript string is a finite sequence of 16-bit code units. The ids and texts of
  tasks, the storage keys and the stored JSON texts are all such strings.
  \<open>js\<close> writes an ASCII literal as a JavaScript string.
\<close>

type_synonym unit16 = "16 word"
type_synonym jsstring = "unit16 list"

definition js :: "string \<Rightarrow> jsstring" where
  "js s = map (\<lambda>c. of_nat (of_char c)) s"

text \<open>
  \<^verbatim>\<open>String.prototype.trim\<close> removes white space and line terminators from both ends:
  TAB, LF, VT, FF, CR, SP, NBSP, U+1680, U+2000..U+200A, U+2028, U+2029, U+202F, U+205F,
  U+3000 and U+FEFF.
\<close>

definition isWhiteSpace :: "unit16 \<Rightarrow> bool" where
  "isWhiteSpace c \<longleftrightarrow>
     c = 0x09 \<or> c = 0x0A \<or> c = 0x0B \<or> c = 0x0C \<or> c = 0x0D \<or> c = 0x20 \<or> c = 0xA0 \<or>
     c = 0x1680 \<or> (0x2000 \<le> c \<and> c \<le> 0x200A) \<or> c = 0x2028 \<or> c = 0x2029 \<or>
     c = 0x202F \<or> c = 0x205F \<or> c = 0x3000 \<or> c = 0xFEFF"

definition trim :: "jsstring \<Rightarrow> jsstring" where
  "trim s = rev (dropWhile isWhiteSpace (rev (dropWhile isWhiteSpace s)))"

section \<open>Exceptions\<close>

text \<open>
  The exceptions that the modelled code can meet: \<^verbatim>\<open>JSON.parse\<close> throws a SyntaxError, the
  storage area a SecurityError (access blocked) or a QuotaExceededError (write refused),
  reading the global \<^verbatim>\<open>localStorage\<close> where there is none is a ReferenceError, and calling
  \<^verbatim>\<open>crypto.randomUUID\<close> where the platform does not provide it (outside a secure context the
  property is undefined) is a TypeError.
\<close>

datatype exn = SyntaxError | SecurityError | QuotaExceededError | ReferenceError | TypeError

section \<open>The task store (TodoList.tsx)\<close>

text \<open>
  Modelled from the spec: \<^verbatim>\<open>Task\<close> is imported from \<^verbatim>\<open>@/lib/interface\<close>, which is not among the
  sources. The spec's data model (id: string token, text: string, completed: boolean flag)
  and the comment at the head of TodoList.tsx give the same three fields,
  \<^verbatim>\<open>interface Task { id: string; text: string; completed: boolean }\<close>.
  The names \<open>id\<close> and \<open>text\<close> are taken in Isabelle, hence the prefix.
\<close>

record task =
  task_id :: jsstring
  task_text :: jsstring
  completed :: bool

text \<open>
  The \<^verbatim>\<open>Action\<close> union. The TypeScript type has four kinds; the reducer's \<^verbatim>\<open>switch\<close> also has
  a \<^verbatim>\<open>default\<close> branch, reached by an action object whose \<^verbatim>\<open>type\<close> is any other string:
  \<open>UNKNOWN\<close> carries that string.
\<close>

datatype action =
    ADD jsstring
  | TOGGLE jsstring
  | DELETE jsstring
  | CLEAR_COMPLETED
  | UNKNOWN jsstring

text \<open>
  \<^verbatim>\<open>tasksReducer(state, action)\<close>. The \<^verbatim>\<open>ADD\<close> branch calls \<^verbatim>\<open>crypto.randomUUID()\<close>, a
  platform function that is no function of \<open>state\<close> and \<open>action\<close>: the value it returns in
  this call is the first argument, \<open>randomUUID\<close>. The other branches do not call it.
  \<^verbatim>\<open>state.map\<close> and \<^verbatim>\<open>state.filter\<close> build new arrays in the order of \<open>state\<close>, as \<open>map\<close>
  and \<open>filter\<close> do; \<^verbatim>\<open>{ ...t, completed: !t.completed }\<close> is a record update.
\<close>

fun tasksReducer :: "jsstring \<Rightarrow> task list \<Rightarrow> action \<Rightarrow> task list" where
  "tasksReducer randomUUID state (ADD t) =
     state @ [\<lparr>task_id = randomUUID, task_text = t, completed = False\<rparr>]"
| "tasksReducer randomUUID state (TOGGLE i) =
     map (\<lambda>t. if task_id t = i then t\<lparr>completed := \<not> completed t\<rparr> else t) state"
| "tasksReducer randomUUID state (DELETE i) =
     filter (\<lambda>t. task_id t \<noteq> i) state"
| "tasksReducer randomUUID state CLEAR_COMPLETED =
     filter (\<lambda>t. \<not> completed t) state"
| "tasksReducer randomUUID state (UNKNOWN k) = state"

text \<open>
  The same function with the call of \<^verbatim>\<open>crypto.randomUUID()\<close> as it can end: the first
  argument is the outcome of the call, the id it returns or the exception it throws.
  Only the \<^verbatim>\<open>ADD\<close> branch makes the call, so only there the exception leaves the reducer
  (\<open>Inl\<close>); no other expression of the reducer can throw on a \<^verbatim>\<open>Task[]\<close>.
\<close>

fun tasksReducer_call :: "exn + jsstring \<Rightarrow> task list \<Rightarrow> action \<Rightarrow> exn + task list" where
  "tasksReducer_call (Inl e) state (ADD t) = Inl e"
| "tasksReducer_call (Inr randomUUID) state (ADD t) =
     Inr (state @ [\<lparr>task_id = randomUUID, task_text = t, completed = False\<rparr>])"
| "tasksReducer_call outcome state (TOGGLE i) =
     Inr (map (\<lambda>t. if task_id t = i then t\<lparr>completed := \<not> completed t\<rparr> else t) state)"
| "tasksReducer_call outcome state (DELETE i) =
     Inr (filter (\<lambda>t. task_id t \<noteq> i) state)"
| "tasksReducer_call outcome state CLEAR_COMPLETED =
     Inr (filter (\<lambda>t. \<not> completed t) state)"
| "tasksReducer_call outcome state (UNKNOWN k) = Inr state"

text \<open>
  The part of the component's state that \<^verbatim>\<open>handleAddTask\<close> reads and writes: the task list
  held by \<^verbatim>\<open>useReducer\<close> and the text of the input field.
  \<^verbatim>\<open>handleAddTask\<close> trims the input, returns without dispatching when nothing is left
  (the empty string is falsy), and otherwise dispatches \<^verbatim>\<open>ADD\<close> and clears the field.
\<close>

record todo =
  tasks :: "task list"
  newTaskText :: jsstring

definition handleAddTask :: "jsstring \<Rightarrow> todo \<Rightarrow> todo" where
  "handleAddTask randomUUID c =
     (let t = trim (newTaskText c)
      in if t = [] then c
         else c\<lparr>tasks := tasksReducer randomUUID (tasks c) (ADD t), newTaskText := []\<rparr>)"

text \<open>The ids of a list, in order, and the number of tasks carrying a given id.\<close>

abbreviation ids :: "task list \<Rightarrow> jsstring list" where
  "ids L \<equiv> map task_id L"

definition occurrences :: "jsstring \<Rightarrow> task list \<Rightarrow> nat" where
  "occurrences i L = length (filter (\<lambda>t. task_id t = i) L)"

section \<open>JSON texts (the platform's \<^verbatim>\<open>JSON.stringify\<close> and \<^verbatim>\<open>JSON.parse\<close>)\<close>

text \<open>
  The values \<^verbatim>\<open>JSON.parse\<close> returns. An object is its list of properties in creation
  order. A number is kept as its literal: its floating-point value is not modelled (no
  task has a number).
\<close>

datatype json =
    JNull
  | JBool bool
  | JNumber jsstring
  | JString jsstring
  | JArray "json list"
  | JObject "(jsstring \<times> json) list"

text \<open>The punctuation of JSON, as code units.\<close>

abbreviation DQUOTE :: unit16 where "DQUOTE \<equiv> 0x22"
abbreviation BACKSLASH :: unit16 where "BACKSLASH \<equiv> 0x5C"
abbreviation COMMA :: unit16 where "COMMA \<equiv> 0x2C"
abbreviation COLON :: unit16 where "COLON \<equiv> 0x3A"
abbreviation LBRACKET :: unit16 where "LBRACKET \<equiv> 0x5B"
abbreviation RBRACKET :: unit16 where "RBRACKET \<equiv> 0x5D"
abbreviation LBRACE :: unit16 where "LBRACE \<equiv> 0x7B"
abbreviation RBRACE :: unit16 where "RBRACE \<equiv> 0x7D"

subsection \<open>\<^verbatim>\<open>JSON.stringify\<close>\<close>

text \<open>
  \<^verbatim>\<open>QuoteJSONString\<close> of ECMA-262: the code points BS, HT, LF, FF, CR, the double quote and
  the backslash get their two-character escapes; any other code point below U+0020 and any
  surrogate that is not part of a pair is written \<^verbatim>\<open>\uXXXX\<close> with lower-case hexadecimal
  digits; everything else, a surrogate pair included, is copied.
\<close>

definition hexDigit :: "nat \<Rightarrow> unit16" where
  "hexDigit n = (if n < 10 then 0x30 + of_nat n else 0x61 + of_nat (n - 10))"

definition UnicodeEscape :: "unit16 \<Rightarrow> jsstring" where
  "UnicodeEscape c =
     [BACKSLASH, 0x75,
      hexDigit (unat c div 16 div 16 div 16), hexDigit (unat c div 16 div 16 mod 16),
      hexDigit (unat c div 16 mod 16), hexDigit (unat c mod 16)]"

definition isLeadingSurrogate :: "unit16 \<Rightarrow> bool" where
  "isLeadingSurrogate c \<longleftrightarrow> 0xD800 \<le> c \<and> c \<le> 0xDBFF"

definition isTrailingSurrogate :: "unit16 \<Rightarrow> bool" where
  "isTrailingSurrogate c \<longleftrightarrow> 0xDC00 \<le> c \<and> c \<le> 0xDFFF"

fun QuoteJSONChars :: "jsstring \<Rightarrow> jsstring" where
  "QuoteJSONChars [] = []"
| "QuoteJSONChars (c # r) =
     (if c = 0x08 then BACKSLASH # 0x62 # QuoteJSONChars r
      else if c = 0x09 then BACKSLASH # 0x74 # QuoteJSONChars r
      else if c = 0x0A then BACKSLASH # 0x6E # QuoteJSONChars r
      else if c = 0x0C then BACKSLASH # 0x66 # QuoteJSONChars r
      else if c = 0x0D then BACKSLASH # 0x72 # QuoteJSONChars r
      else if c = DQUOTE then BACKSLASH # DQUOTE # QuoteJSONChars r
      else if c = BACKSLASH then BACKSLASH # BACKSLASH # QuoteJSONChars r
      else if c < 0x20 then UnicodeEscape c @ QuoteJSONChars r
      else if isLeadingSurrogate c then
        (case r of
           [] \<Rightarrow> UnicodeEscape c
         | d # r' \<Rightarrow>
             if isTrailingSurrogate d then c # d # QuoteJSONChars r'
             else UnicodeEscape c @ QuoteJSONChars r)
      else if isTrailingSurrogate c then UnicodeEscape c @ QuoteJSONChars r
      else c # QuoteJSONChars r)"

definition QuoteJSONString :: "jsstring \<Rightarrow> jsstring" where
  "QuoteJSONString s = DQUOTE # QuoteJSONChars s @ [DQUOTE]"

text \<open>
  A value without indentation: the elements of an array and the properties of an object
  are separated by single commas, a property is \<^verbatim>\<open>"key":value\<close>.
\<close>

fun join :: "jsstring list \<Rightarrow> jsstring" where
  "join [] = []"
| "join [x] = x"
| "join (x # y # ys) = x @ COMMA # join (y # ys)"

fun JSON_stringify :: "json \<Rightarrow> jsstring" where
  "JSON_stringify JNull = js ''null''"
| "JSON_stringify (JBool b) = (if b then js ''true'' else js ''false'')"
| "JSON_stringify (JNumber lexeme) = lexeme"
| "JSON_stringify (JString s) = QuoteJSONString s"
| "JSON_stringify (JArray vs) = LBRACKET # join (map JSON_stringify vs) @ [RBRACKET]"
| "JSON_stringify (JObject ms) =
     LBRACE # join (map (\<lambda>(k, v). QuoteJSONString k @ COLON # JSON_stringify v) ms) @ [RBRACE]"

subsection \<open>\<^verbatim>\<open>JSON.parse\<close>\<close>

text \<open>
  The JSON grammar of ECMA-404: white space is SP, HT, LF and CR. \<open>parse_chars\<close> reads the
  characters of a string up to its closing quote: an escape is one of
  \<^verbatim>\<open>\" \\ \/ \b \f \n \r \t\<close> or \<^verbatim>\<open>\u\<close> with four hexadecimal digits of either case, and a
  code unit below U+0020 may not occur unescaped.
\<close>

definition isJSONWhiteSpace :: "unit16 \<Rightarrow> bool" where
  "isJSONWhiteSpace c \<longleftrightarrow> c = 0x20 \<or> c = 0x09 \<or> c = 0x0A \<or> c = 0x0D"

definition skip_ws :: "jsstring \<Rightarrow> jsstring" where
  "skip_ws s = dropWhile isJSONWhiteSpace s"

definition hexValue :: "unit16 \<Rightarrow> nat option" where
  "hexValue c =
     (if 0x30 \<le> c \<and> c \<le> 0x39 then Some (unat c - 0x30)
      else if 0x61 \<le> c \<and> c \<le> 0x66 then Some (unat c - 0x61 + 10)
      else if 0x41 \<le> c \<and> c \<le> 0x46 then Some (unat c - 0x41 + 10)
      else None)"

definition hex4 :: "unit16 \<Rightarrow> unit16 \<Rightarrow> unit16 \<Rightarrow> unit16 \<Rightarrow> unit16 option" where
  "hex4 a b c d =
     (case (hexValue a, hexValue b, hexValue c, hexValue d) of
        (Some x3, Some x2, Some x1, Some x0) \<Rightarrow> Some (of_nat (((x3 * 16 + x2) * 16 + x1) * 16 + x0))
      | _ \<Rightarrow> None)"

definition unescape :: "unit16 \<Rightarrow> unit16 option" where
  "unescape e =
     (if e = DQUOTE then Some DQUOTE
      else if e = BACKSLASH then Some BACKSLASH
      else if e = 0x2F then Some 0x2F
      else if e = 0x62 then Some 0x08
      else if e = 0x66 then Some 0x0C
      else if e = 0x6E then Some 0x0A
      else if e = 0x72 then Some 0x0D
      else if e = 0x74 then Some 0x09
      else None)"

definition consUnit :: "unit16 \<Rightarrow> (jsstring \<times> jsstring) option \<Rightarrow> (jsstring \<times> jsstring) option" where
  "consUnit c res = map_option (\<lambda>(s, r). (c # s, r)) res"

fun parse_chars :: "jsstring \<Rightarrow> (jsstring \<times> jsstring) option" where
  "parse_chars [] = None"
| "parse_chars (c # r) =
     (if c = DQUOTE then Some ([], r)
      else if c = BACKSLASH then
        (case r of
           [] \<Rightarrow> None
         | e # r1 \<Rightarrow>
             if e = 0x75 then
               (case r1 of
                  a # b # c' # d # r2 \<Rightarrow>
                    (case hex4 a b c' d of
                       None \<Rightarrow> None
                     | Some w \<Rightarrow> consUnit w (parse_chars r2))
                | _ \<Rightarrow> None)
             else
               (case unescape e of
                  None \<Rightarrow> None
                | Some w \<Rightarrow> consUnit w (parse_chars r1)))
      else if c < 0x20 then None
      else consUnit c (parse_chars r))"

text \<open>The literals \<^verbatim>\<open>true\<close>, \<^verbatim>\<open>false\<close> and \<^verbatim>\<open>null\<close>, and the number literals.\<close>

fun strip_prefix :: "jsstring \<Rightarrow> jsstring \<Rightarrow> jsstring option" where
  "strip_prefix [] s = Some s"
| "strip_prefix (p # ps) [] = None"
| "strip_prefix (p # ps) (c # s) = (if p = c then strip_prefix ps s else None)"

definition isDigit :: "unit16 \<Rightarrow> bool" where
  "isDigit c \<longleftrightarrow> 0x30 \<le> c \<and> c \<le> 0x39"

definition lex_digits :: "jsstring \<Rightarrow> (jsstring \<times> jsstring) option" where
  "lex_digits s = (if takeWhile isDigit s = [] then None
                   else Some (takeWhile isDigit s, dropWhile isDigit s))"

definition lex_int :: "jsstring \<Rightarrow> (jsstring \<times> jsstring) option" where
  "lex_int s =
     (case s of
        [] \<Rightarrow> None
      | c # r \<Rightarrow> if c = 0x30 then Some ([c], r) else lex_digits s)"

definition lex_frac :: "jsstring \<Rightarrow> (jsstring \<times> jsstring) option" where
  "lex_frac s =
     (case s of
        [] \<Rightarrow> Some ([], s)
      | c # r \<Rightarrow>
          if c = 0x2E then map_option (\<lambda>(ds, r'). (c # ds, r')) (lex_digits r)
          else Some ([], s))"

definition lex_sign :: "jsstring \<Rightarrow> jsstring \<times> jsstring" where
  "lex_sign s =
     (case s of
        [] \<Rightarrow> ([], s)
      | c # r \<Rightarrow> if c = 0x2B \<or> c = 0x2D then ([c], r) else ([], s))"

definition lex_exp :: "jsstring \<Rightarrow> (jsstring \<times> jsstring) option" where
  "lex_exp s =
     (case s of
        [] \<Rightarrow> Some ([], s)
      | c # r \<Rightarrow>
          if c = 0x65 \<or> c = 0x45 then
            (case lex_sign r of
               (sg, r1) \<Rightarrow> map_option (\<lambda>(ds, r2). (c # sg @ ds, r2)) (lex_digits r1))
          else Some ([], s))"

definition lex_number :: "jsstring \<Rightarrow> (jsstring \<times> jsstring) option" where
  "lex_number s =
     (case (case s of [] \<Rightarrow> ([], s) | c # r \<Rightarrow> if c = 0x2D then ([c], r) else ([], s)) of
        (neg, s1) \<Rightarrow>
          (case lex_int s1 of
             None \<Rightarrow> None
           | Some (ip, s2) \<Rightarrow>
               (case lex_frac s2 of
                  None \<Rightarrow> None
                | Some (fp, s3) \<Rightarrow>
                    (case lex_exp s3 of
                       None \<Rightarrow> None
                     | Some (ep, s4) \<Rightarrow> Some (neg @ ip @ fp @ ep, s4)))))"

text \<open>
  Defining a property: a key that the object already has keeps its position and takes
  the new value, a new key goes to the end.
\<close>

fun put_property :: "jsstring \<Rightarrow> json \<Rightarrow> (jsstring \<times> json) list \<Rightarrow> (jsstring \<times> json) list" where
  "put_property k v [] = [(k, v)]"
| "put_property k v ((k', v') # ms) =
     (if k' = k then (k, v) # ms else (k', v') # put_property k v ms)"

text \<open>
  The recursive-descent parser. \<open>PValue\<close> reads a value, \<open>PElements acc\<close> the rest of an
  array whose elements so far are \<open>acc\<close>, \<open>PMembers acc\<close> the rest of an object whose
  properties so far are \<open>acc\<close>. The result is the value with the text that follows it, or
  a SyntaxError. The first argument bounds the length of a chain of calls; \<open>None\<close> means
  that the bound was too small. \<open>JSON_parse\<close> starts with a bound that is never used up
  (lemma \<open>parse_json_fuel\<close>) and accepts only white space after the value.
\<close>

datatype pmode = PValue | PElements "json list" | PMembers "(jsstring \<times> json) list"

type_synonym presult = "(exn + json \<times> jsstring) option"

abbreviation syntax_error :: presult where
  "syntax_error \<equiv> Some (Inl SyntaxError)"

abbreviation parsed :: "json \<Rightarrow> jsstring \<Rightarrow> presult" where
  "parsed v r \<equiv> Some (Inr (v, r))"

fun parse_json :: "nat \<Rightarrow> pmode \<Rightarrow> jsstring \<Rightarrow> presult" where
  "parse_json 0 m s = None"
| "parse_json (Suc n) PValue s =
     (case skip_ws s of
        [] \<Rightarrow> syntax_error
      | c # r \<Rightarrow>
          if c = LBRACE then
            (case skip_ws r of
               [] \<Rightarrow> syntax_error
             | c' # r' \<Rightarrow>
                 if c' = RBRACE then parsed (JObject []) r'
                 else parse_json n (PMembers []) (c' # r'))
          else if c = LBRACKET then
            (case skip_ws r of
               [] \<Rightarrow> syntax_error
             | c' # r' \<Rightarrow>
                 if c' = RBRACKET then parsed (JArray []) r'
                 else parse_json n (PElements []) (c' # r'))
          else if c = DQUOTE then
            (case parse_chars r of
               None \<Rightarrow> syntax_error
             | Some (str, r') \<Rightarrow> parsed (JString str) r')
          else if c = 0x74 then
            (case strip_prefix (js ''true'') (c # r) of
               None \<Rightarrow> syntax_error
             | Some r' \<Rightarrow> parsed (JBool True) r')
          else if c = 0x66 then
            (case strip_prefix (js ''false'') (c # r) of
               None \<Rightarrow> syntax_error
             | Some r' \<Rightarrow> parsed (JBool False) r')
          else if c = 0x6E then
            (case strip_prefix (js ''null'') (c # r) of
               None \<Rightarrow> syntax_error
             | Some r' \<Rightarrow> parsed JNull r')
          else
            (case lex_number (c # r) of
               None \<Rightarrow> syntax_error
             | Some (lexeme, r') \<Rightarrow> parsed (JNumber lexeme) r'))"
| "parse_json (Suc n) (PElements acc) s =
     (case parse_json n PValue s of
        None \<Rightarrow> None
      | Some (Inl e) \<Rightarrow> Some (Inl e)
      | Some (Inr (v, r)) \<Rightarrow>
          (case skip_ws r of
             [] \<Rightarrow> syntax_error
           | c # r' \<Rightarrow>
               if c = COMMA then parse_json n (PElements (acc @ [v])) r'
               else if c = RBRACKET then parsed (JArray (acc @ [v])) r'
               else syntax_error))"
| "parse_json (Suc n) (PMembers acc) s =
     (case skip_ws s of
        [] \<Rightarrow> syntax_error
      | c # r \<Rightarrow>
          if c = DQUOTE then
            (case parse_chars r of
               None \<Rightarrow> syntax_error
             | Some (k, r1) \<Rightarrow>
                 (case skip_ws r1 of
                    [] \<Rightarrow> syntax_error
                  | c1 # r2 \<Rightarrow>
                      if c1 = COLON then
                        (case parse_json n PValue r2 of
                           None \<Rightarrow> None
                         | Some (Inl e) \<Rightarrow> Some (Inl e)
                         | Some (Inr (v, r3)) \<Rightarrow>
                             (case skip_ws r3 of
                                [] \<Rightarrow> syntax_error
                              | c3 # r4 \<Rightarrow>
                                  if c3 = COMMA then parse_json n (PMembers (put_property k v acc)) r4
                                  else if c3 = RBRACE then parsed (JObject (put_property k v acc)) r4
                                  else syntax_error))
                      else syntax_error))
          else syntax_error)"

definition JSON_parse :: "jsstring \<Rightarrow> exn + json" where
  "JSON_parse s =
     (case parse_json (2 * length s + 2) PValue s of
        None \<Rightarrow> Inl SyntaxError
      | Some (Inl e) \<Rightarrow> Inl e
      | Some (Inr (v, r)) \<Rightarrow> if skip_ws r = [] then Inr v else Inl SyntaxError)"


section \<open>Tasks as JSON values\<close>

text \<open>
  A task object has the properties \<^verbatim>\<open>id\<close>, \<^verbatim>\<open>text\<close> and \<^verbatim>\<open>completed\<close>, created in this order
  by the \<^verbatim>\<open>ADD\<close> branch and kept in it by the spread in the \<^verbatim>\<open>TOGGLE\<close> branch.
  \<open>tasks_value\<close> is the array that \<^verbatim>\<open>JSON.stringify(tasks)\<close> serializes. The cast
  \<^verbatim>\<open>JSON.parse(raw) as Task[]\<close> checks nothing: \<open>as_tasks\<close> reads a parsed value as a task list
  and is \<open>None\<close> for a value that is no array of objects with a string \<^verbatim>\<open>id\<close>, a string
  \<^verbatim>\<open>text\<close> and a boolean \<^verbatim>\<open>completed\<close>.
\<close>

definition task_value :: "task \<Rightarrow> json" where
  "task_value t =
     JObject [(js ''id'', JString (task_id t)), (js ''text'', JString (task_text t)),
              (js ''completed'', JBool (completed t))]"

definition tasks_value :: "task list \<Rightarrow> json" where
  "tasks_value L = JArray (map task_value L)"

text \<open>The text of a boolean, and the texts of the tasks of a list.\<close>

definition boolean_text :: "bool \<Rightarrow> jsstring" where
  "boolean_text b = (if b then js ''true'' else js ''false'')"

abbreviation task_texts :: "task list \<Rightarrow> jsstring list" where
  "task_texts L \<equiv> map (\<lambda>t. JSON_stringify (task_value t)) L"

fun as_string :: "json option \<Rightarrow> jsstring option" where
  "as_string (Some (JString s)) = Some s"
| "as_string _ = None"

fun as_boolean :: "json option \<Rightarrow> bool option" where
  "as_boolean (Some (JBool b)) = Some b"
| "as_boolean _ = None"

fun as_task :: "json \<Rightarrow> task option" where
  "as_task (JObject ms) =
     (case as_string (map_of ms (js ''id'')) of
        None \<Rightarrow> None
      | Some i \<Rightarrow>
          (case as_string (map_of ms (js ''text'')) of
             None \<Rightarrow> None
           | Some t \<Rightarrow>
               (case as_boolean (map_of ms (js ''completed'')) of
                  None \<Rightarrow> None
                | Some c \<Rightarrow> Some \<lparr>task_id = i, task_text = t, completed = c\<rparr>)))"
| "as_task _ = None"

fun as_tasks :: "json \<Rightarrow> task list option" where
  "as_tasks (JArray vs) = those (map as_task vs)"
| "as_tasks _ = None"

section \<open>The storage area and the console\<close>

text \<open>
  \<^verbatim>\<open>window.localStorage\<close>: the stored strings by key, whether the browser blocks access
  (every call throws a SecurityError) and whether it refuses writes (\<^verbatim>\<open>setItem\<close> throws a
  QuotaExceededError). \<^verbatim>\<open>getItem\<close> returns \<^verbatim>\<open>null\<close> (\<open>None\<close>) for a key without value.
\<close>

record storage =
  items :: "jsstring \<Rightarrow> jsstring option"
  denied :: bool
  full :: bool

definition getItem :: "storage \<Rightarrow> jsstring \<Rightarrow> exn + jsstring option" where
  "getItem st key = (if denied st then Inl SecurityError else Inr (items st key))"

definition setItem :: "storage \<Rightarrow> jsstring \<Rightarrow> jsstring \<Rightarrow> exn + storage" where
  "setItem st key val =
     (if denied st then Inl SecurityError
      else if full st then Inl QuotaExceededError
      else Inr (st\<lparr>items := (items st)(key \<mapsto> val)\<rparr>))"

text \<open>
  What the code sends to \<^verbatim>\<open>console.error\<close>: the message for a failed read or a failed
  write, with the key and the error. The world outside the component is the \<^verbatim>\<open>window\<close>
  (\<open>None\<close> where \<^verbatim>\<open>typeof window\<close> is \<^verbatim>\<open>"undefined"\<close>) and the console.
\<close>

datatype log_entry = Error_reading jsstring exn | Error_setting jsstring exn

record world =
  window :: "storage option"
  console :: "log_entry list"

definition console_error :: "log_entry \<Rightarrow> world \<Rightarrow> world" where
  "console_error entry w = w\<lparr>console := console w @ [entry]\<rparr>"

section \<open>The persistence adapter (useLocalStorage.ts)\<close>

text \<open>
  A result \<open>Inl e\<close> is an exception that reaches the caller; \<open>Inr\<close> carries the value in
  memory and the world after the call.

  The initializer passed to \<^verbatim>\<open>useState\<close>: without a window it returns \<^verbatim>\<open>initialValue\<close>;
  otherwise the \<^verbatim>\<open>try\<close> block reads the item and returns \<^verbatim>\<open>JSON.parse(item)\<close> when the item is
  truthy (neither \<^verbatim>\<open>null\<close> nor the empty string) and \<^verbatim>\<open>initialValue\<close> when it is not; the
  \<^verbatim>\<open>catch\<close> block logs and returns \<^verbatim>\<open>initialValue\<close>. The value type \<^verbatim>\<open>T\<close> is JSON data.
\<close>

definition useLocalStorage_initialState :: "world \<Rightarrow> jsstring \<Rightarrow> json \<Rightarrow> exn + json \<times> world" where
  "useLocalStorage_initialState w key initialValue =
     (case window w of
        None \<Rightarrow> Inr (initialValue, w)
      | Some st \<Rightarrow>
          (case (case getItem st key of
                   Inl e \<Rightarrow> Inl e
                 | Inr None \<Rightarrow> Inr initialValue
                 | Inr (Some item) \<Rightarrow> if item = [] then Inr initialValue else JSON_parse item) of
             Inl error \<Rightarrow> Inr (initialValue, console_error (Error_reading key error) w)
           | Inr v \<Rightarrow> Inr (v, w)))"

text \<open>
  The effect that runs when the stored value changes. A value of the model is data,
  never a function, so \<^verbatim>\<open>storedValue instanceof Function\<close> is false and \<^verbatim>\<open>valueToStore\<close> is
  \<^verbatim>\<open>storedValue\<close>. The effect does not call \<^verbatim>\<open>setStoredValue\<close>: the value in memory is
  returned as it came.
\<close>

definition useLocalStorage_effect :: "world \<Rightarrow> jsstring \<Rightarrow> json \<Rightarrow> exn + json \<times> world" where
  "useLocalStorage_effect w key storedValue =
     (case window w of
        None \<Rightarrow> Inr (storedValue, w)
      | Some st \<Rightarrow>
          (case setItem st key (JSON_stringify storedValue) of
             Inl error \<Rightarrow> Inr (storedValue, console_error (Error_setting key error) w)
           | Inr st' \<Rightarrow> Inr (storedValue, w\<lparr>window := Some st'\<rparr>)))"

section \<open>Loading and saving in the component (TodoList.tsx)\<close>

text \<open>
  The initializer passed to \<^verbatim>\<open>useReducer\<close> reads the key \<^verbatim>\<open>"tasks"\<close>; its \<^verbatim>\<open>catch\<close> block
  returns \<^verbatim>\<open>[]\<close> and logs nothing. The effect that persists the list calls
  \<^verbatim>\<open>localStorage.setItem\<close> outside any \<^verbatim>\<open>try\<close>: an exception of the write leaves the effect.
\<close>

definition TodoList_initialState :: "world \<Rightarrow> exn + json \<times> world" where
  "TodoList_initialState w =
     (case window w of
        Some st \<Rightarrow>
          (case (case getItem st (js ''tasks'') of
                   Inl e \<Rightarrow> Inl e
                 | Inr None \<Rightarrow> Inr (JArray [])
                 | Inr (Some raw) \<Rightarrow> if raw = [] then Inr (JArray []) else JSON_parse raw) of
             Inl e \<Rightarrow> Inr (JArray [], w)
           | Inr v \<Rightarrow> Inr (v, w))
      | None \<Rightarrow> Inr (JArray [], w))"

definition TodoList_persistEffect :: "world \<Rightarrow> task list \<Rightarrow> exn + task list \<times> world" where
  "TodoList_persistEffect w ts =
     (case window w of
        None \<Rightarrow> Inl ReferenceError
      | Some st \<Rightarrow>
          (case setItem st (js ''tasks'') (JSON_stringify (tasks_value ts)) of
             Inl e \<Rightarrow> Inl e
           | Inr st' \<Rightarrow> Inr (ts, w\<lparr>window := Some st'\<rparr>)))"

section \<open>Properties of the reducer\<close>

lemma js_simps [simp]:
  "js [] = []"
  "js (c # s) = of_nat (of_char c) # js s"
  by (simp_all add: js_def)

lemma tasksReducer_ignores_uuid:
  "\<forall>t. a \<noteq> ADD t \<Longrightarrow> tasksReducer u1 L a = tasksReducer u2 L a"
  by (cases a) simp_all

lemma toggle_length: "length (tasksReducer u L (TOGGLE i)) = length L"
  by simp

lemma toggle_ids: "ids (tasksReducer u L (TOGGLE i)) = ids L"
  by (induction L) simp_all

lemma toggle_texts: "map task_text (tasksReducer u L (TOGGLE i)) = map task_text L"
  by (induction L) simp_all

lemma toggle_nth:
  "k < length L \<Longrightarrow>
   tasksReducer u L (TOGGLE i) ! k =
     (if task_id (L ! k) = i then (L ! k)\<lparr>completed := \<not> completed (L ! k)\<rparr> else L ! k)"
  by simp

lemma toggle_twice:
  "tasksReducer u' (tasksReducer u L (TOGGLE i)) (TOGGLE i) = L"
  by (induction L) simp_all

lemma delete_length:
  "length (tasksReducer u L (DELETE i)) = length L - occurrences i L"
proof -
  have "length L = length (filter (\<lambda>t. task_id t \<noteq> i) L) + length (filter (\<lambda>t. task_id t = i) L)"
    by (induction L) simp_all
  then show ?thesis by (simp add: occurrences_def)
qed

lemma occurrences_zero: "occurrences i L = 0 \<longleftrightarrow> i \<notin> set (ids L)"
  by (induction L) (auto simp: occurrences_def)

lemma occurrences_distinct:
  "distinct (ids L) \<Longrightarrow> i \<in> set (ids L) \<Longrightarrow> occurrences i L = 1"
proof (induction L)
  case Nil
  then show ?case by simp
next
  case (Cons t L)
  show ?case
  proof (cases "task_id t = i")
    case True
    with Cons.prems have "i \<notin> set (ids L)" by simp
    then have "occurrences i L = 0" by (simp add: occurrences_zero)
    with True show ?thesis by (simp add: occurrences_def)
  next
    case False
    with Cons show ?thesis by (simp add: occurrences_def)
  qed
qed

lemma delete_absent: "i \<notin> set (ids L) \<Longrightarrow> tasksReducer u L (DELETE i) = L"
  by (induction L) auto

lemma delete_removes_id: "i \<notin> set (ids (tasksReducer u L (DELETE i)))"
  by auto

lemma distinct_ids_filter: "distinct (ids L) \<Longrightarrow> distinct (ids (filter P L))"
  by (simp add: distinct_map_filter)

text \<open>
  C4. Clearing completed tasks returns exactly the tasks of the list that are not
  completed, in their original relative order: the result is the list filtered by
  "not completed", it is a subsequence of the list, none of its tasks is completed, and
  every task of the list that is not completed occurs in it as often as in the list.
\<close>

theorem clear_completed_keeps_active:
  "tasksReducer u L CLEAR_COMPLETED = filter (\<lambda>t. \<not> completed t) L
   \<and> subseq (tasksReducer u L CLEAR_COMPLETED) L
   \<and> list_all (\<lambda>t. \<not> completed t) (tasksReducer u L CLEAR_COMPLETED)
   \<and> list_all (\<lambda>t. completed t \<or> count_list (tasksReducer u L CLEAR_COMPLETED) t = count_list L t) L"
proof -
  have "count_list (filter (\<lambda>t. \<not> completed t) L) t = count_list L t" if "\<not> completed t" for t
    using that by (induction L) auto
  then show ?thesis
    by (auto simp: list_all_iff)
qed

theorem clear_completed_keeps_active_witness:
  "tasksReducer (js ''u'')
     [\<lparr>task_id = js ''a'', task_text = js ''Buy milk'', completed = True\<rparr>,
      \<lparr>task_id = js ''b'', task_text = js ''Walk'', completed = False\<rparr>,
      \<lparr>task_id = js ''c'', task_text = js ''Read'', completed = True\<rparr>,
      \<lparr>task_id = js ''d'', task_text = js ''Cook'', completed = False\<rparr>] CLEAR_COMPLETED
   = [\<lparr>task_id = js ''b'', task_text = js ''Walk'', completed = False\<rparr>,
      \<lparr>task_id = js ''d'', task_text = js ''Cook'', completed = False\<rparr>]"
  using clear_completed_keeps_active [of "js ''u''"
     "[\<lparr>task_id = js ''a'', task_text = js ''Buy milk'', completed = True\<rparr>,
      \<lparr>task_id = js ''b'', task_text = js ''Walk'', completed = False\<rparr>,
      \<lparr>task_id = js ''c'', task_text = js ''Read'', completed = True\<rparr>,
      \<lparr>task_id = js ''d'', task_text = js ''Cook'', completed = False\<rparr>]"]
  by simp

text \<open>
  \<^verbatim>\<open>handleAddTask\<close> dispatches \<^verbatim>\<open>ADD\<close> with the trimmed input exactly when the trimmed input
  is not empty; otherwise the component's state stays as it is.
\<close>

lemma handleAddTask_dispatch:
  "trim s \<noteq> [] \<Longrightarrow>
   tasks (handleAddTask u \<lparr>tasks = L, newTaskText = s\<rparr>) = tasksReducer u L (ADD (trim s))"
  by (simp add: handleAddTask_def Let_def)

lemma handleAddTask_reject:
  "trim s = [] \<Longrightarrow>
   handleAddTask u \<lparr>tasks = L, newTaskText = s\<rparr> = \<lparr>tasks = L, newTaskText = s\<rparr>"
  by (simp add: handleAddTask_def)




text \<open>
  C2. For every list \<open>L\<close> and every id \<open>i\<close> that occurs in \<open>L\<close>, the \<^verbatim>\<open>TOGGLE\<close> transition
  keeps the length of the list, the ids and the texts position by position (so the order
  as well), negates the completed flag of the tasks whose id is \<open>i\<close> and leaves the other
  tasks as they are; toggling the same id twice gives \<open>L\<close> back.
\<close>

theorem toggle_flips_only_completed:
  assumes "i \<in> set (ids L)"
  shows "length (tasksReducer u L (TOGGLE i)) = length L
    \<and> ids (tasksReducer u L (TOGGLE i)) = ids L
    \<and> map task_text (tasksReducer u L (TOGGLE i)) = map task_text L
    \<and> (\<forall>k < length L.
          completed (tasksReducer u L (TOGGLE i) ! k)
            = (if task_id (L ! k) = i then \<not> completed (L ! k) else completed (L ! k))
          \<and> (task_id (L ! k) \<noteq> i \<longrightarrow> tasksReducer u L (TOGGLE i) ! k = L ! k))
    \<and> (\<exists>k < length L. task_id (L ! k) = i
          \<and> completed (tasksReducer u L (TOGGLE i) ! k) = (\<not> completed (L ! k)))
    \<and> tasksReducer u' (tasksReducer u L (TOGGLE i)) (TOGGLE i) = L"
proof -
  from assms obtain k where k: "k < length L" "task_id (L ! k) = i"
    by (auto simp: in_set_conv_nth)
  then have "\<exists>k < length L. task_id (L ! k) = i
      \<and> completed (tasksReducer u L (TOGGLE i) ! k) = (\<not> completed (L ! k))"
    by (auto simp: toggle_nth)
  moreover have "\<forall>k < length L.
      completed (tasksReducer u L (TOGGLE i) ! k)
        = (if task_id (L ! k) = i then \<not> completed (L ! k) else completed (L ! k))
      \<and> (task_id (L ! k) \<noteq> i \<longrightarrow> tasksReducer u L (TOGGLE i) ! k = L ! k)"
    by (simp add: toggle_nth)
  ultimately show ?thesis
    using toggle_length [of u L i] toggle_ids [of u L i] toggle_texts [of u L i]
      toggle_twice [of u' u L i]
    by blast
qed

theorem toggle_flips_only_completed_witness:
  "js ''b'' \<in> set (ids [\<lparr>task_id = js ''a'', task_text = js ''Walk'', completed = False\<rparr>,
                        \<lparr>task_id = js ''b'', task_text = js ''Buy milk'', completed = False\<rparr>])
   \<and> tasksReducer (js ''u'')
        [\<lparr>task_id = js ''a'', task_text = js ''Walk'', completed = False\<rparr>,
         \<lparr>task_id = js ''b'', task_text = js ''Buy milk'', completed = False\<rparr>] (TOGGLE (js ''b''))
      = [\<lparr>task_id = js ''a'', task_text = js ''Walk'', completed = False\<rparr>,
         \<lparr>task_id = js ''b'', task_text = js ''Buy milk'', completed = True\<rparr>]
   \<and> tasksReducer (js ''v'')
        (tasksReducer (js ''u'')
          [\<lparr>task_id = js ''a'', task_text = js ''Walk'', completed = False\<rparr>,
           \<lparr>task_id = js ''b'', task_text = js ''Buy milk'', completed = False\<rparr>] (TOGGLE (js ''b'')))
        (TOGGLE (js ''b''))
      = [\<lparr>task_id = js ''a'', task_text = js ''Walk'', completed = False\<rparr>,
         \<lparr>task_id = js ''b'', task_text = js ''Buy milk'', completed = False\<rparr>]"
proof -
  have h: "js ''b'' \<in> set (ids [\<lparr>task_id = js ''a'', task_text = js ''Walk'', completed = False\<rparr>,
                        \<lparr>task_id = js ''b'', task_text = js ''Buy milk'', completed = False\<rparr>])"
    by simp
  from toggle_flips_only_completed [OF h, of "js ''v''" "js ''u''"] h show ?thesis
    by simp
qed

lemma delete_keeps_others:
  "task_id t \<noteq> i \<Longrightarrow> count_list (tasksReducer u L (DELETE i)) t = count_list L t"
  by (induction L) auto

text \<open>
  C3, as stated, at a list in which two tasks have the id \<open>a\<close>: deleting \<open>a\<close> from the two
  tasks leaves no task, not one.
\<close>

theorem delete_length_counterexample:
  "js ''a'' \<in> set (ids [\<lparr>task_id = js ''a'', task_text = js ''x'', completed = False\<rparr>,
                        \<lparr>task_id = js ''a'', task_text = js ''y'', completed = False\<rparr>])
   \<and> length (tasksReducer (js ''u'')
        [\<lparr>task_id = js ''a'', task_text = js ''x'', completed = False\<rparr>,
         \<lparr>task_id = js ''a'', task_text = js ''y'', completed = False\<rparr>] (DELETE (js ''a'')))
      \<noteq> length [\<lparr>task_id = js ''a'', task_text = js ''x'', completed = False\<rparr>,
                 \<lparr>task_id = js ''a'', task_text = js ''y'', completed = False\<rparr>] - 1"
  by simp

text \<open>
  C3, amended. For every list \<open>L\<close> and id \<open>i\<close>, the \<^verbatim>\<open>DELETE\<close> transition returns a list
  whose length is \<open>length L\<close> minus the number of tasks of \<open>L\<close> with id \<open>i\<close>; that is
  \<open>length L - 1\<close> when exactly one task has id \<open>i\<close>, in particular when the ids of \<open>L\<close> are
  distinct and \<open>i\<close> occurs; it returns \<open>L\<close> itself when no task has id \<open>i\<close>; and in every
  case the result has no task with id \<open>i\<close>.
\<close>

theorem delete_removes_every_match:
  "length (tasksReducer u L (DELETE i)) = length L - occurrences i L
   \<and> (occurrences i L = 1 \<longrightarrow> length (tasksReducer u L (DELETE i)) = length L - 1)
   \<and> (distinct (ids L) \<and> i \<in> set (ids L) \<longrightarrow>
        length (tasksReducer u L (DELETE i)) = length L - 1)
   \<and> (i \<notin> set (ids L) \<longrightarrow> tasksReducer u L (DELETE i) = L)
   \<and> i \<notin> set (ids (tasksReducer u L (DELETE i)))"
proof -
  have len: "length (tasksReducer u L (DELETE i)) = length L - occurrences i L"
    by (rule delete_length)
  have one: "length (tasksReducer u L (DELETE i)) = length L - 1" if "occurrences i L = 1"
    using that len by simp
  have "length (tasksReducer u L (DELETE i)) = length L - 1"
    if "distinct (ids L) \<and> i \<in> set (ids L)"
    using that one by (simp add: occurrences_distinct)
  with len one show ?thesis
    using delete_absent [of i L u] delete_removes_id [of i u L] by blast
qed

theorem delete_removes_every_match_witness:
  "distinct (ids [\<lparr>task_id = js ''a'', task_text = js ''x'', completed = False\<rparr>,
                  \<lparr>task_id = js ''b'', task_text = js ''y'', completed = True\<rparr>])
   \<and> js ''b'' \<in> set (ids [\<lparr>task_id = js ''a'', task_text = js ''x'', completed = False\<rparr>,
                          \<lparr>task_id = js ''b'', task_text = js ''y'', completed = True\<rparr>])
   \<and> length (tasksReducer (js ''u'')
        [\<lparr>task_id = js ''a'', task_text = js ''x'', completed = False\<rparr>,
         \<lparr>task_id = js ''b'', task_text = js ''y'', completed = True\<rparr>] (DELETE (js ''b''))) = 1
   \<and> js ''c'' \<notin> set (ids [\<lparr>task_id = js ''a'', task_text = js ''x'', completed = False\<rparr>,
                          \<lparr>task_id = js ''b'', task_text = js ''y'', completed = True\<rparr>])
   \<and> tasksReducer (js ''u'')
        [\<lparr>task_id = js ''a'', task_text = js ''x'', completed = False\<rparr>,
         \<lparr>task_id = js ''b'', task_text = js ''y'', completed = True\<rparr>] (DELETE (js ''c''))
      = [\<lparr>task_id = js ''a'', task_text = js ''x'', completed = False\<rparr>,
         \<lparr>task_id = js ''b'', task_text = js ''y'', completed = True\<rparr>]"
  using
    delete_removes_every_match [of "js ''u''"
      "[\<lparr>task_id = js ''a'', task_text = js ''x'', completed = False\<rparr>,
        \<lparr>task_id = js ''b'', task_text = js ''y'', completed = True\<rparr>]" "js ''b''"]
    delete_removes_every_match [of "js ''u''"
      "[\<lparr>task_id = js ''a'', task_text = js ''x'', completed = False\<rparr>,
        \<lparr>task_id = js ''b'', task_text = js ''y'', completed = True\<rparr>]" "js ''c''"]
  by simp

lemma tasksReducer_call_returns:
  "tasksReducer_call (Inr u) L a = Inr (tasksReducer u L a)"
  by (cases a) simp_all

lemma tasksReducer_call_other:
  "\<forall>t. a \<noteq> ADD t \<Longrightarrow> tasksReducer_call outcome L a = Inr (tasksReducer u L a)"
  by (cases a) simp_all

lemma tasksReducer_call_fails:
  "tasksReducer_call outcome L a = Inl e \<longleftrightarrow> (\<exists>t. a = ADD t) \<and> outcome = Inl e"
  by (cases a; cases outcome) auto

text \<open>
  C5, as stated, at the \<^verbatim>\<open>ADD\<close> action: two applications of the reducer to the same list
  and the same action draw two ids from \<^verbatim>\<open>crypto.randomUUID()\<close>, and their results differ;
  and where the call of \<^verbatim>\<open>crypto.randomUUID()\<close> throws, the reducer fails with that exception.
\<close>

theorem reducer_deterministic_counterexample:
  "tasksReducer (js ''id1'') [] (ADD (js ''Buy milk''))
     \<noteq> tasksReducer (js ''id2'') [] (ADD (js ''Buy milk''))
   \<and> tasksReducer_call (Inr (js ''id1'')) [] (ADD (js ''Buy milk''))
     \<noteq> tasksReducer_call (Inr (js ''id2'')) [] (ADD (js ''Buy milk''))
   \<and> tasksReducer_call (Inl TypeError) [] (ADD (js ''Buy milk'')) = Inl TypeError"
  by simp

text \<open>
  C5, amended. For every list and every \<^verbatim>\<open>TOGGLE\<close>, \<^verbatim>\<open>DELETE\<close>, \<^verbatim>\<open>CLEAR_COMPLETED\<close> or unknown
  action the reducer returns a list without failing, whatever \<^verbatim>\<open>crypto.randomUUID()\<close> would
  do, and the list depends on the list and the action alone. For \<^verbatim>\<open>ADD\<close> the reducer returns
  a list exactly when the call of \<^verbatim>\<open>crypto.randomUUID()\<close> returns an id, and fails with the
  exception of that call otherwise: the reducer fails in no other case. The result of
  \<^verbatim>\<open>ADD\<close> depends on the id drawn: two applications return equal lists exactly when they
  draw the same id, and they always agree on the first \<open>length L\<close> tasks and on the text
  and the completed flag of the added task. An unknown kind returns the list unchanged.
\<close>

theorem reducer_total_and_deterministic_up_to_id:
  "((\<forall>t. a \<noteq> ADD t) \<longrightarrow>
      tasksReducer_call outcome1 L a = Inr (tasksReducer u1 L a)
      \<and> tasksReducer_call outcome2 L a = tasksReducer_call outcome1 L a)
   \<and> tasksReducer_call (Inr u1) L a = Inr (tasksReducer u1 L a)
   \<and> tasksReducer_call (Inl e) L (ADD t) = Inl e
   \<and> (tasksReducer_call outcome1 L a = Inl e \<longleftrightarrow> (\<exists>t. a = ADD t) \<and> outcome1 = Inl e)
   \<and> length (tasksReducer u1 L a) \<le> length L + 1
   \<and> ((\<forall>t. a \<noteq> ADD t) \<longrightarrow> tasksReducer u1 L a = tasksReducer u2 L a)
   \<and> (tasksReducer u1 L (ADD t) = tasksReducer u2 L (ADD t) \<longleftrightarrow> u1 = u2)
   \<and> (tasksReducer_call (Inr u1) L (ADD t) = tasksReducer_call (Inr u2) L (ADD t) \<longleftrightarrow> u1 = u2)
   \<and> butlast (tasksReducer u1 L (ADD t)) = butlast (tasksReducer u2 L (ADD t))
   \<and> task_text (last (tasksReducer u1 L (ADD t))) = task_text (last (tasksReducer u2 L (ADD t)))
   \<and> completed (last (tasksReducer u1 L (ADD t))) = completed (last (tasksReducer u2 L (ADD t)))
   \<and> tasksReducer u1 L (UNKNOWN k) = L
   \<and> tasksReducer_call outcome1 L (UNKNOWN k) = Inr L"
proof -
  have "(\<forall>t. a \<noteq> ADD t) \<longrightarrow>
      tasksReducer_call outcome1 L a = Inr (tasksReducer u1 L a)
      \<and> tasksReducer_call outcome2 L a = tasksReducer_call outcome1 L a"
    using tasksReducer_call_other [of a outcome1 L u1] tasksReducer_call_other [of a outcome2 L u1]
    by simp
  moreover have "tasksReducer_call (Inr u1) L a = Inr (tasksReducer u1 L a)"
    by (rule tasksReducer_call_returns)
  moreover have "tasksReducer_call outcome1 L a = Inl e \<longleftrightarrow> (\<exists>t. a = ADD t) \<and> outcome1 = Inl e"
    by (rule tasksReducer_call_fails)
  moreover have "length (tasksReducer u1 L a) \<le> length L + 1"
    by (cases a) (simp_all add: le_SucI)
  moreover have "(\<forall>t. a \<noteq> ADD t) \<longrightarrow> tasksReducer u1 L a = tasksReducer u2 L a"
    using tasksReducer_ignores_uuid [of a u1 L u2] by blast
  ultimately show ?thesis by simp
qed

theorem reducer_total_and_deterministic_up_to_id_witness:
  "tasksReducer_call (Inl TypeError)
       [\<lparr>task_id = js ''a'', task_text = js ''x'', completed = False\<rparr>] (TOGGLE (js ''a''))
     = Inr [\<lparr>task_id = js ''a'', task_text = js ''x'', completed = True\<rparr>]
   \<and> tasksReducer_call (Inr (js ''id2''))
       [\<lparr>task_id = js ''a'', task_text = js ''x'', completed = False\<rparr>] (TOGGLE (js ''a''))
     = tasksReducer_call (Inl TypeError)
       [\<lparr>task_id = js ''a'', task_text = js ''x'', completed = False\<rparr>] (TOGGLE (js ''a''))
   \<and> tasksReducer (js ''id1'') [\<lparr>task_id = js ''a'', task_text = js ''x'', completed = False\<rparr>]
       (TOGGLE (js ''a''))
     = tasksReducer (js ''id2'') [\<lparr>task_id = js ''a'', task_text = js ''x'', completed = False\<rparr>]
       (TOGGLE (js ''a''))
   \<and> tasksReducer_call (Inl TypeError)
       [\<lparr>task_id = js ''a'', task_text = js ''x'', completed = False\<rparr>] (UNKNOWN (js ''RESET''))
     = Inr [\<lparr>task_id = js ''a'', task_text = js ''x'', completed = False\<rparr>]"
  using reducer_total_and_deterministic_up_to_id [of "TOGGLE (js ''a'')" "Inl TypeError"
      "[\<lparr>task_id = js ''a'', task_text = js ''x'', completed = False\<rparr>]" "js ''id1''"
      "Inr (js ''id2'')" TypeError "js ''x''" "js ''id2''" "js ''RESET''"]
  by simp

text \<open>
  The scenario of the spec: from the empty list, adding "Buy milk", toggling the new task
  and clearing the completed tasks gives the empty list again.
\<close>

lemma scenario_buy_milk:
  "tasksReducer u [] (ADD (js ''Buy milk''))
     = [\<lparr>task_id = u, task_text = js ''Buy milk'', completed = False\<rparr>]"
  "tasksReducer u' (tasksReducer u [] (ADD (js ''Buy milk''))) (TOGGLE u)
     = [\<lparr>task_id = u, task_text = js ''Buy milk'', completed = True\<rparr>]"
  "tasksReducer u''
     (tasksReducer u' (tasksReducer u [] (ADD (js ''Buy milk''))) (TOGGLE u)) CLEAR_COMPLETED
     = []"
  by simp_all

lemma subseq_ids_filter: "subseq (ids (filter P L)) (ids L)"
  by (induction L) auto

lemma reducer_ids_subseq: "subseq (ids (tasksReducer u L a)) (ids L @ [u])"
proof (cases a)
  case (ADD t)
  then show ?thesis by simp
next
  case (TOGGLE i)
  have "subseq (ids L) (ids L @ [u])" by (rule subseq_rev_drop_many) simp
  with TOGGLE show ?thesis by (simp only: toggle_ids)
next
  case (DELETE i)
  have "subseq (ids (filter (\<lambda>t. task_id t \<noteq> i) L)) (ids L @ [u])"
    by (rule subseq_rev_drop_many) (rule subseq_ids_filter)
  with DELETE show ?thesis by simp
next
  case CLEAR_COMPLETED
  have "subseq (ids (filter (\<lambda>t. \<not> completed t) L)) (ids L @ [u])"
    by (rule subseq_rev_drop_many) (rule subseq_ids_filter)
  with CLEAR_COMPLETED show ?thesis by simp
next
  case (UNKNOWN k)
  have "subseq (ids L) (ids L @ [u])" by (rule subseq_rev_drop_many) simp
  with UNKNOWN show ?thesis by simp
qed

lemma reducer_keeps_distinct:
  assumes "distinct (ids L)" and "\<forall>t. a = ADD t \<longrightarrow> u \<notin> set (ids L)"
  shows "distinct (ids (tasksReducer u L a))"
proof (cases a)
  case (ADD t)
  with assms show ?thesis by simp
next
  case (TOGGLE i)
  with assms show ?thesis by (simp only: toggle_ids)
next
  case (DELETE i)
  with assms show ?thesis by (simp add: distinct_map_filter)
next
  case CLEAR_COMPLETED
  with assms show ?thesis by (simp add: distinct_map_filter)
next
  case (UNKNOWN k)
  with assms show ?thesis by simp
qed

text \<open>
  C6. Uniqueness of ids is an invariant of the task store. For every list \<open>L\<close> whose ids
  are distinct and every action (\<^verbatim>\<open>ADD\<close> drawing an id that does not occur in \<open>L\<close>), the
  list the reducer returns has distinct ids again. The tasks that survive keep their ids:
  the ids of the result, in order, are a subsequence of the ids of \<open>L\<close> followed by the new
  id; \<^verbatim>\<open>ADD\<close> and \<^verbatim>\<open>TOGGLE\<close> keep the id at every position of \<open>L\<close>, and \<^verbatim>\<open>DELETE\<close> and
  \<^verbatim>\<open>CLEAR_COMPLETED\<close> return tasks of \<open>L\<close> unchanged.
\<close>

theorem unique_ids_invariant:
  assumes "distinct (ids L)" and "\<forall>t. a = ADD t \<longrightarrow> u \<notin> set (ids L)"
  shows "distinct (ids (tasksReducer u L a))
    \<and> subseq (ids (tasksReducer u L a)) (ids L @ [u])
    \<and> take (length L) (ids (tasksReducer u L (ADD t))) = ids L
    \<and> ids (tasksReducer u L (TOGGLE i)) = ids L
    \<and> subseq (tasksReducer u L (DELETE i)) L
    \<and> subseq (tasksReducer u L CLEAR_COMPLETED) L"
proof -
  have "distinct (ids (tasksReducer u L a))"
    using assms by (rule reducer_keeps_distinct)
  moreover have "subseq (ids (tasksReducer u L a)) (ids L @ [u])"
    by (rule reducer_ids_subseq)
  moreover have "ids (tasksReducer u L (TOGGLE i)) = ids L"
    by (rule toggle_ids)
  ultimately show ?thesis by simp
qed

theorem unique_ids_invariant_witness:
  "distinct (ids [\<lparr>task_id = js ''a'', task_text = js ''x'', completed = False\<rparr>,
                  \<lparr>task_id = js ''b'', task_text = js ''y'', completed = True\<rparr>])
   \<and> js ''c'' \<notin> set (ids [\<lparr>task_id = js ''a'', task_text = js ''x'', completed = False\<rparr>,
                          \<lparr>task_id = js ''b'', task_text = js ''y'', completed = True\<rparr>])
   \<and> distinct (ids (tasksReducer (js ''c'')
        [\<lparr>task_id = js ''a'', task_text = js ''x'', completed = False\<rparr>,
         \<lparr>task_id = js ''b'', task_text = js ''y'', completed = True\<rparr>] (ADD (js ''z''))))
   \<and> ids (tasksReducer (js ''c'')
        [\<lparr>task_id = js ''a'', task_text = js ''x'', completed = False\<rparr>,
         \<lparr>task_id = js ''b'', task_text = js ''y'', completed = True\<rparr>] (ADD (js ''z'')))
      = [js ''a'', js ''b'', js ''c'']"
proof -
  have h1: "distinct (ids [\<lparr>task_id = js ''a'', task_text = js ''x'', completed = False\<rparr>,
                  \<lparr>task_id = js ''b'', task_text = js ''y'', completed = True\<rparr>])"
    by simp
  have h2: "\<forall>t. ADD (js ''z'') = ADD t \<longrightarrow>
      js ''c'' \<notin> set (ids [\<lparr>task_id = js ''a'', task_text = js ''x'', completed = False\<rparr>,
                          \<lparr>task_id = js ''b'', task_text = js ''y'', completed = True\<rparr>])"
    by simp
  from unique_ids_invariant [OF h1 h2] h1 show ?thesis
    by simp
qed

text \<open>
  C10. For every list \<open>L\<close>, lists in which several tasks share an id included, and every
  id \<open>i\<close>: the \<^verbatim>\<open>DELETE\<close> transition returns the tasks of \<open>L\<close> whose id is not \<open>i\<close>, in their
  original order (a subsequence of \<open>L\<close> with no task of id \<open>i\<close>, every other task as often
  as in \<open>L\<close>), so every duplicate of \<open>i\<close> goes in one transition; and the \<^verbatim>\<open>TOGGLE\<close>
  transition negates the completed flag of every task whose id is \<open>i\<close> and changes
  nothing else.
\<close>

theorem delete_toggle_act_on_every_duplicate:
  "tasksReducer u L (DELETE i) = filter (\<lambda>t. task_id t \<noteq> i) L
   \<and> subseq (tasksReducer u L (DELETE i)) L
   \<and> i \<notin> set (ids (tasksReducer u L (DELETE i)))
   \<and> list_all (\<lambda>t. task_id t = i \<or> count_list (tasksReducer u L (DELETE i)) t = count_list L t) L
   \<and> tasksReducer u L (TOGGLE i)
       = map (\<lambda>t. if task_id t = i then t\<lparr>completed := \<not> completed t\<rparr> else t) L
   \<and> list_all2 (\<lambda>t t'. task_id t' = task_id t \<and> task_text t' = task_text t
        \<and> completed t' = (if task_id t = i then \<not> completed t else completed t))
        L (tasksReducer u L (TOGGLE i))"
proof -
  have "list_all (\<lambda>t. task_id t = i \<or> count_list (tasksReducer u L (DELETE i)) t = count_list L t) L"
    unfolding list_all_iff using delete_keeps_others [of _ i u L] by blast
  moreover have "list_all2 (\<lambda>t t'. task_id t' = task_id t \<and> task_text t' = task_text t
        \<and> completed t' = (if task_id t = i then \<not> completed t else completed t))
        L (tasksReducer u L (TOGGLE i))"
    by (simp add: list_all2_conv_all_nth)
  ultimately show ?thesis
    using delete_removes_id [of i u L] by simp
qed

theorem delete_toggle_act_on_every_duplicate_witness:
  "tasksReducer (js ''u'')
     [\<lparr>task_id = js ''a'', task_text = js ''x'', completed = False\<rparr>,
      \<lparr>task_id = js ''b'', task_text = js ''y'', completed = False\<rparr>,
      \<lparr>task_id = js ''a'', task_text = js ''z'', completed = True\<rparr>] (DELETE (js ''a''))
     = [\<lparr>task_id = js ''b'', task_text = js ''y'', completed = False\<rparr>]
   \<and> tasksReducer (js ''u'')
     [\<lparr>task_id = js ''a'', task_text = js ''x'', completed = False\<rparr>,
      \<lparr>task_id = js ''b'', task_text = js ''y'', completed = False\<rparr>,
      \<lparr>task_id = js ''a'', task_text = js ''z'', completed = True\<rparr>] (TOGGLE (js ''a''))
     = [\<lparr>task_id = js ''a'', task_text = js ''x'', completed = True\<rparr>,
        \<lparr>task_id = js ''b'', task_text = js ''y'', completed = False\<rparr>,
        \<lparr>task_id = js ''a'', task_text = js ''z'', completed = False\<rparr>]"
  using delete_toggle_act_on_every_duplicate [of "js ''u''"
     "[\<lparr>task_id = js ''a'', task_text = js ''x'', completed = False\<rparr>,
      \<lparr>task_id = js ''b'', task_text = js ''y'', completed = False\<rparr>,
      \<lparr>task_id = js ''a'', task_text = js ''z'', completed = True\<rparr>]" "js ''a''"]
  by simp

section \<open>Properties of the JSON functions\<close>

lemma hexValue_hexDigit_upto: "list_all (\<lambda>n. hexValue (hexDigit n) = Some n) [0 ..< 16]"
  by (simp add: upt_rec hexValue_def hexDigit_def)

lemma hexValue_hexDigit: "n < 16 \<Longrightarrow> hexValue (hexDigit n) = Some n"
  using hexValue_hexDigit_upto by (simp add: list_all_iff)

lemma unat_unit16_bound: "unat (c :: unit16) < 65536"
  using unsigned_less [of c, where ?'a = nat] by simp

lemma hex4_UnicodeEscape:
  "hex4 (hexDigit (unat c div 16 div 16 div 16)) (hexDigit (unat c div 16 div 16 mod 16))
        (hexDigit (unat c div 16 mod 16)) (hexDigit (unat c mod 16)) = Some (c :: unit16)"
proof -
  have "unat c div 16 div 16 div 16 < 16"
    using unat_unit16_bound [of c] by (simp add: div_less_iff_less_mult)
  then have "hex4 (hexDigit (unat c div 16 div 16 div 16)) (hexDigit (unat c div 16 div 16 mod 16))
        (hexDigit (unat c div 16 mod 16)) (hexDigit (unat c mod 16))
     = Some (of_nat (((unat c div 16 div 16 div 16 * 16 + unat c div 16 div 16 mod 16) * 16
          + unat c div 16 mod 16) * 16 + unat c mod 16))"
    by (simp add: hex4_def hexValue_hexDigit)
  also have "((unat c div 16 div 16 div 16 * 16 + unat c div 16 div 16 mod 16) * 16
          + unat c div 16 mod 16) * 16 + unat c mod 16 = unat c"
    by (simp only: div_mult_mod_eq)
  finally show ?thesis by simp
qed

lemma parse_chars_literal:
  "c \<noteq> DQUOTE \<Longrightarrow> c \<noteq> BACKSLASH \<Longrightarrow> \<not> c < 0x20 \<Longrightarrow>
   parse_chars (c # r) = consUnit c (parse_chars r)"
  by simp

lemma parse_chars_UnicodeEscape:
  "parse_chars (UnicodeEscape c @ r) = consUnit c (parse_chars r)"
  by (simp add: UnicodeEscape_def hex4_UnicodeEscape)

lemma surrogate_is_literal:
  "(0xD800 :: unit16) \<le> c \<Longrightarrow> c \<noteq> DQUOTE \<and> c \<noteq> BACKSLASH \<and> \<not> c < 0x20"
  by (auto simp: word_le_nat_alt word_less_nat_alt)


lemma parse_chars_short_escape:
  "e = DQUOTE \<or> e = BACKSLASH \<or> e = 0x62 \<or> e = 0x66 \<or> e = 0x6E \<or> e = 0x72 \<or> e = 0x74 \<Longrightarrow>
   parse_chars (BACKSLASH # e # r) = (case unescape e of None \<Rightarrow> None | Some w \<Rightarrow> consUnit w (parse_chars r))"
  by auto

lemma consUnit_Some [simp]: "consUnit c (Some (s, r)) = Some (c # s, r)"
  by (simp add: consUnit_def)

lemma quote_step_named:
  assumes "c = 0x08 \<or> c = 0x09 \<or> c = 0x0A \<or> c = 0x0C \<or> c = 0x0D \<or> c = DQUOTE \<or> c = BACKSLASH"
  shows "parse_chars (QuoteJSONChars (c # r) @ X) = consUnit c (parse_chars (QuoteJSONChars r @ X))"
proof -
  consider "c = 0x08" | "c = 0x09" | "c = 0x0A" | "c = 0x0C" | "c = 0x0D" | "c = DQUOTE" | "c = BACKSLASH"
    using assms by blast
  then show ?thesis
    by cases (simp_all add: unescape_def)
qed

lemma quote_step_escaped:
  assumes "\<not> (c = 0x08 \<or> c = 0x09 \<or> c = 0x0A \<or> c = 0x0C \<or> c = 0x0D \<or> c = DQUOTE \<or> c = BACKSLASH)"
    and "QuoteJSONChars (c # r) = UnicodeEscape c @ QuoteJSONChars r"
  shows "parse_chars (QuoteJSONChars (c # r) @ X) = consUnit c (parse_chars (QuoteJSONChars r @ X))"
  by (simp only: assms(2) append_assoc parse_chars_UnicodeEscape)

lemma quote_step_literal:
  assumes "c \<noteq> DQUOTE" "c \<noteq> BACKSLASH" "\<not> c < 0x20"
    and "QuoteJSONChars (c # r) = c # QuoteJSONChars r"
  shows "parse_chars (QuoteJSONChars (c # r) @ X) = consUnit c (parse_chars (QuoteJSONChars r @ X))"
  using assms(1-3) unfolding assms(4) append_Cons by (rule parse_chars_literal)


lemma quote_ctl:
  "\<not> (c = 0x08 \<or> c = 0x09 \<or> c = 0x0A \<or> c = 0x0C \<or> c = 0x0D \<or> c = DQUOTE \<or> c = BACKSLASH) \<Longrightarrow>
   c < 0x20 \<Longrightarrow> QuoteJSONChars (c # r) = UnicodeEscape c @ QuoteJSONChars r"
  by simp


lemma surrogate_not_named:
  "(0xD800 :: unit16) \<le> c \<Longrightarrow>
   \<not> (c = 0x08 \<or> c = 0x09 \<or> c = 0x0A \<or> c = 0x0C \<or> c = 0x0D \<or> c = DQUOTE \<or> c = BACKSLASH)"
  by (auto simp: word_le_nat_alt)

lemma quote_pair:
  assumes "isLeadingSurrogate c" and "isTrailingSurrogate d"
  shows "parse_chars (QuoteJSONChars (c # d # r) @ X)
         = consUnit c (consUnit d (parse_chars (QuoteJSONChars r @ X)))"
proof -
  from assms have c: "0xD800 \<le> c" and d: "0xD800 \<le> d"
    by (auto simp: isLeadingSurrogate_def isTrailingSurrogate_def word_le_nat_alt)
  have q: "QuoteJSONChars (c # d # r) = c # d # QuoteJSONChars r"
    using assms surrogate_not_named [OF c] surrogate_is_literal [OF c] by simp
  have "parse_chars (c # d # QuoteJSONChars r @ X)
        = consUnit c (parse_chars (d # QuoteJSONChars r @ X))"
    using surrogate_is_literal [OF c] by (intro parse_chars_literal) simp_all
  also have "parse_chars (d # QuoteJSONChars r @ X) = consUnit d (parse_chars (QuoteJSONChars r @ X))"
    using surrogate_is_literal [OF d] by (intro parse_chars_literal) simp_all
  finally show ?thesis
    by (simp only: q append_Cons)
qed

lemma quote_single:
  assumes "\<not> (isLeadingSurrogate c \<and> (\<exists>d r'. r = d # r' \<and> isTrailingSurrogate d))"
  shows "parse_chars (QuoteJSONChars (c # r) @ X)
         = consUnit c (parse_chars (QuoteJSONChars r @ X))"
proof (cases "c = 0x08 \<or> c = 0x09 \<or> c = 0x0A \<or> c = 0x0C \<or> c = 0x0D \<or> c = DQUOTE \<or> c = BACKSLASH")
  case True
  then show ?thesis by (rule quote_step_named)
next
  case named: False
  show ?thesis
  proof (cases "c < 0x20")
    case True
    with named have "QuoteJSONChars (c # r) = UnicodeEscape c @ QuoteJSONChars r"
      by (rule quote_ctl)
    with named show ?thesis by (rule quote_step_escaped)
  next
    case ctl: False
    show ?thesis
    proof (cases "isLeadingSurrogate c")
      case True
      with assms have "\<not> (\<exists>d r'. r = d # r' \<and> isTrailingSurrogate d)" by blast
      with named ctl True have "QuoteJSONChars (c # r) = UnicodeEscape c @ QuoteJSONChars r"
        by (cases r) simp_all
      with named show ?thesis by (rule quote_step_escaped)
    next
      case nolead: False
      show ?thesis
      proof (cases "isTrailingSurrogate c")
        case True
        with named ctl nolead have "QuoteJSONChars (c # r) = UnicodeEscape c @ QuoteJSONChars r"
          by simp
        with named show ?thesis by (rule quote_step_escaped)
      next
        case False
        with named ctl nolead have "QuoteJSONChars (c # r) = c # QuoteJSONChars r"
          by simp
        with named ctl show ?thesis by (intro quote_step_literal) simp_all
      qed
    qed
  qed
qed

lemma parse_chars_QuoteJSONChars:
  "parse_chars (QuoteJSONChars s @ DQUOTE # rest) = Some (s, rest)"
proof (induction s rule: induct_list012)
  case 1
  show ?case by simp
next
  case (2 x)
  have "parse_chars (QuoteJSONChars [x] @ DQUOTE # rest)
        = consUnit x (parse_chars (QuoteJSONChars [] @ DQUOTE # rest))"
    by (rule quote_single) simp
  then show ?case by simp
next
  case (3 x y zs)
  show ?case
  proof (cases "isLeadingSurrogate x \<and> isTrailingSurrogate y")
    case True
    then have "parse_chars (QuoteJSONChars (x # y # zs) @ DQUOTE # rest)
        = consUnit x (consUnit y (parse_chars (QuoteJSONChars zs @ DQUOTE # rest)))"
      by (intro quote_pair) simp_all
    with 3 show ?thesis by (simp only: consUnit_Some)
  next
    case False
    then have "parse_chars (QuoteJSONChars (x # y # zs) @ DQUOTE # rest)
        = consUnit x (parse_chars (QuoteJSONChars (y # zs) @ DQUOTE # rest))"
      by (intro quote_single) simp
    with 3 show ?thesis by (simp only: consUnit_Some)
  qed
qed

declare parse_json.simps [simp del]

lemma skip_ws_token [simp]: "\<not> isJSONWhiteSpace c \<Longrightarrow> skip_ws (c # r) = c # r"
  by (simp add: skip_ws_def)

lemma token_not_ws [simp]:
  "\<not> isJSONWhiteSpace DQUOTE" "\<not> isJSONWhiteSpace COMMA" "\<not> isJSONWhiteSpace COLON"
  "\<not> isJSONWhiteSpace LBRACKET" "\<not> isJSONWhiteSpace RBRACKET"
  "\<not> isJSONWhiteSpace LBRACE" "\<not> isJSONWhiteSpace RBRACE"
  "\<not> isJSONWhiteSpace 0x74" "\<not> isJSONWhiteSpace 0x66"
  by (simp_all add: isJSONWhiteSpace_def)

lemma parse_value_string:
  "parse_json (Suc n) PValue (QuoteJSONString s @ rest) = parsed (JString s) rest"
  by (simp add: parse_json.simps QuoteJSONString_def parse_chars_QuoteJSONChars)

lemma parse_value_boolean:
  "parse_json (Suc n) PValue ((if b then js ''true'' else js ''false'') @ rest) = parsed (JBool b) rest"
  by (simp add: parse_json.simps)

lemma parse_member_more:
  assumes "parse_json n PValue (vt @ COMMA # rest) = parsed v (COMMA # rest)"
  shows "parse_json (Suc n) (PMembers acc) (QuoteJSONString k @ COLON # vt @ COMMA # rest)
         = parse_json n (PMembers (put_property k v acc)) rest"
  using assms
  by (simp add: parse_json.simps QuoteJSONString_def parse_chars_QuoteJSONChars)

lemma parse_member_last:
  assumes "parse_json n PValue (vt @ RBRACE # rest) = parsed v (RBRACE # rest)"
  shows "parse_json (Suc n) (PMembers acc) (QuoteJSONString k @ COLON # vt @ RBRACE # rest)
         = parsed (JObject (put_property k v acc)) rest"
  using assms
  by (simp add: parse_json.simps QuoteJSONString_def parse_chars_QuoteJSONChars)


lemma stringify_task_value:
  "JSON_stringify (task_value t) =
     LBRACE # QuoteJSONString (js ''id'') @ COLON # QuoteJSONString (task_id t) @
     COMMA # QuoteJSONString (js ''text'') @ COLON # QuoteJSONString (task_text t) @
     COMMA # QuoteJSONString (js ''completed'') @ COLON # boolean_text (completed t) @ [RBRACE]"
  by (simp add: task_value_def boolean_text_def del: js_simps)

lemma parse_value_object_start:
  "parse_json (Suc n) PValue (LBRACE # QuoteJSONString k @ rest)
   = parse_json n (PMembers []) (QuoteJSONString k @ rest)"
  by (simp add: parse_json.simps QuoteJSONString_def)

lemma put_task_properties:
  "put_property (js ''completed'') c
     (put_property (js ''text'') b (put_property (js ''id'') a []))
   = [(js ''id'', a), (js ''text'', b), (js ''completed'', c)]"
  by simp

lemma parse_task_value:
  "parse_json (Suc (Suc (Suc (Suc (Suc n))))) PValue (JSON_stringify (task_value t) @ rest)
   = parsed (task_value t) rest"
proof -
  let ?m3 = "QuoteJSONString (js ''completed'') @ COLON # boolean_text (completed t) @ RBRACE # rest"
  let ?m2 = "QuoteJSONString (js ''text'') @ COLON # QuoteJSONString (task_text t) @ COMMA # ?m3"
  let ?m1 = "QuoteJSONString (js ''id'') @ COLON # QuoteJSONString (task_id t) @ COMMA # ?m2"
  have v3: "parse_json (Suc n) PValue (boolean_text (completed t) @ RBRACE # rest)
      = parsed (JBool (completed t)) (RBRACE # rest)"
    unfolding boolean_text_def by (rule parse_value_boolean)
  have m3: "parse_json (Suc (Suc n)) (PMembers acc) ?m3
      = parsed (JObject (put_property (js ''completed'') (JBool (completed t)) acc)) rest" for acc
    by (rule parse_member_last [OF v3])
  have v2: "parse_json (Suc (Suc n)) PValue (QuoteJSONString (task_text t) @ COMMA # ?m3)
      = parsed (JString (task_text t)) (COMMA # ?m3)"
    by (rule parse_value_string)
  have m2: "parse_json (Suc (Suc (Suc n))) (PMembers acc) ?m2
      = parse_json (Suc (Suc n)) (PMembers (put_property (js ''text'') (JString (task_text t)) acc)) ?m3"
    for acc
    by (rule parse_member_more [OF v2])
  have v1: "parse_json (Suc (Suc (Suc n))) PValue (QuoteJSONString (task_id t) @ COMMA # ?m2)
      = parsed (JString (task_id t)) (COMMA # ?m2)"
    by (rule parse_value_string)
  have m1: "parse_json (Suc (Suc (Suc (Suc n)))) (PMembers acc) ?m1
      = parse_json (Suc (Suc (Suc n))) (PMembers (put_property (js ''id'') (JString (task_id t)) acc)) ?m2"
    for acc
    by (rule parse_member_more [OF v1])
  have "JSON_stringify (task_value t) @ rest = LBRACE # ?m1"
    by (simp only: stringify_task_value append_assoc append_Cons append_Nil)
  then have "parse_json (Suc (Suc (Suc (Suc (Suc n))))) PValue (JSON_stringify (task_value t) @ rest)
      = parse_json (Suc (Suc (Suc (Suc n)))) (PMembers []) ?m1"
    by (simp only: parse_value_object_start)
  also have "\<dots> = parsed (JObject (put_property (js ''completed'') (JBool (completed t))
      (put_property (js ''text'') (JString (task_text t))
        (put_property (js ''id'') (JString (task_id t)) [])))) rest"
    by (simp only: m1 m2 m3)
  also have "\<dots> = parsed (task_value t) rest"
    by (simp only: put_task_properties task_value_def)
  finally show ?thesis .
qed

lemma parse_element_more:
  assumes "parse_json n PValue (vt @ COMMA # rest) = parsed v (COMMA # rest)"
  shows "parse_json (Suc n) (PElements acc) (vt @ COMMA # rest)
         = parse_json n (PElements (acc @ [v])) rest"
  using assms by (simp add: parse_json.simps)

lemma parse_element_last:
  assumes "parse_json n PValue (vt @ RBRACKET # rest) = parsed v (RBRACKET # rest)"
  shows "parse_json (Suc n) (PElements acc) (vt @ RBRACKET # rest)
         = parsed (JArray (acc @ [v])) rest"
  using assms by (simp add: parse_json.simps)

lemma parse_task_value_fuel:
  "5 \<le> f \<Longrightarrow> parse_json f PValue (JSON_stringify (task_value t) @ rest) = parsed (task_value t) rest"
proof -
  assume "5 \<le> f"
  then have "f = Suc (Suc (Suc (Suc (Suc (f - 5)))))"
    by arith
  then show ?thesis by (metis parse_task_value)
qed

lemma parse_elements_tasks:
  "L \<noteq> [] \<Longrightarrow>
   parse_json (Suc (length L + 5 + n)) (PElements acc) (join (task_texts L) @ RBRACKET # rest)
   = parsed (JArray (acc @ map task_value L)) rest"
proof (induction L arbitrary: acc rule: list_nonempty_induct)
  case (single t)
  have "parse_json (length [t] + 5 + n) PValue (JSON_stringify (task_value t) @ RBRACKET # rest)
      = parsed (task_value t) (RBRACKET # rest)"
    by (rule parse_task_value_fuel) simp
  then have "parse_json (Suc (length [t] + 5 + n)) (PElements acc)
       (JSON_stringify (task_value t) @ RBRACKET # rest)
      = parsed (JArray (acc @ [task_value t])) rest"
    by (rule parse_element_last)
  then show ?case by simp
next
  case (cons t L)
  obtain t' L' where L: "L = t' # L'"
    using cons.hyps by (cases L) auto
  let ?rest = "join (task_texts L) @ RBRACKET # rest"
  have "parse_json (length (t # L) + 5 + n) PValue (JSON_stringify (task_value t) @ COMMA # ?rest)
      = parsed (task_value t) (COMMA # ?rest)"
    by (rule parse_task_value_fuel) simp
  then have "parse_json (Suc (length (t # L) + 5 + n)) (PElements acc)
       (JSON_stringify (task_value t) @ COMMA # ?rest)
      = parse_json (length (t # L) + 5 + n) (PElements (acc @ [task_value t])) ?rest"
    by (rule parse_element_more)
  also have "length (t # L) + 5 + n = Suc (length L + 5 + n)"
    by simp
  also have "parse_json (Suc (length L + 5 + n)) (PElements (acc @ [task_value t])) ?rest
      = parsed (JArray ((acc @ [task_value t]) @ map task_value L)) rest"
    by (rule cons.IH)
  finally show ?case
    by (simp add: L)
qed

lemma stringify_tasks_value:
  "JSON_stringify (tasks_value L) = LBRACKET # join (task_texts L) @ [RBRACKET]"
  by (simp add: tasks_value_def comp_def)

lemma task_text_head: "\<exists>r. JSON_stringify (task_value t) = LBRACE # r"
  by (simp add: stringify_task_value)

lemma join_task_texts_head: "L \<noteq> [] \<Longrightarrow> \<exists>r. join (task_texts L) = LBRACE # r"
proof (induction L rule: induct_list012)
  case 1
  then show ?case by simp
next
  case (2 t)
  then show ?case using task_text_head [of t] by simp
next
  case (3 t t' L)
  obtain r where "JSON_stringify (task_value t) = LBRACE # r"
    using task_text_head [of t] by blast
  then show ?case by simp
qed

lemma length_join_task_texts: "length L \<le> length (join (task_texts L))"
proof (induction L rule: induct_list012)
  case 1
  show ?case by simp
next
  case (2 t)
  obtain r where "JSON_stringify (task_value t) = LBRACE # r"
    using task_text_head [of t] by blast
  then show ?case by simp
next
  case (3 t t' L)
  from 3(2) show ?case by simp
qed

lemma parse_value_array_start:
  "parse_json (Suc n) PValue (LBRACKET # LBRACE # r) = parse_json n (PElements []) (LBRACE # r)"
  by (simp add: parse_json.simps)

lemma JSON_parse_Suc:
  "JSON_parse s =
     (case parse_json (Suc (2 * length s + 1)) PValue s of
        None \<Rightarrow> Inl SyntaxError
      | Some (Inl e) \<Rightarrow> Inl e
      | Some (Inr (v, r)) \<Rightarrow> if skip_ws r = [] then Inr v else Inl SyntaxError)"
proof -
  have e: "2 * length s + 2 = Suc (2 * length s + 1)" by simp
  show ?thesis unfolding JSON_parse_def e by (rule refl)
qed

lemma parse_value_empty_array:
  "parse_json (Suc n) PValue [LBRACKET, RBRACKET] = parsed (JArray []) []"
  by (simp add: parse_json.simps)

lemma skip_ws_Nil [simp]: "skip_ws [] = []"
  by (simp add: skip_ws_def)

lemma JSON_parse_stringify_tasks:
  "JSON_parse (JSON_stringify (tasks_value L)) = Inr (tasks_value L)"
proof (cases "L = []")
  case True
  then have "JSON_stringify (tasks_value L) = [LBRACKET, RBRACKET]"
    by (simp add: tasks_value_def)
  with True show ?thesis
    by (simp only: JSON_parse_Suc parse_value_empty_array)
      (simp add: tasks_value_def)
next
  case False
  let ?s = "JSON_stringify (tasks_value L)"
  obtain r where r: "join (task_texts L) = LBRACE # r"
    using join_task_texts_head [OF False] by blast
  have len: "length ?s = length (join (task_texts L)) + 2"
    by (simp add: stringify_tasks_value)
  have "length L + 5 \<le> 2 * length ?s"
    using length_join_task_texts [of L] False len by (cases L) simp_all
  then have fuel: "2 * length ?s + 1 = Suc (length L + 5 + (2 * length ?s - (length L + 5)))"
    by arith
  have "parse_json (Suc (2 * length ?s + 1)) PValue ?s
      = parse_json (Suc (length L + 5 + (2 * length ?s - (length L + 5)))) (PElements [])
          (join (task_texts L) @ RBRACKET # [])"
    unfolding fuel unfolding stringify_tasks_value r append_Cons by (rule parse_value_array_start)
  also have "\<dots> = parsed (JArray ([] @ map task_value L)) []"
    using False by (rule parse_elements_tasks)
  finally show ?thesis
    by (simp add: JSON_parse_Suc tasks_value_def)
qed

lemma as_task_task_value: "as_task (task_value t) = Some t"
  by (simp add: task_value_def)

lemma as_tasks_tasks_value: "as_tasks (tasks_value L) = Some L"
  by (induction L) (simp_all add: tasks_value_def as_task_task_value)

lemma stringify_tasks_nonempty: "JSON_stringify (tasks_value L) \<noteq> []"
  by (simp add: stringify_tasks_value)

lemma parse_value_not_json:
  "parse_json (Suc n) PValue (js ''not json'') = syntax_error"
  by (simp add: parse_json.simps skip_ws_def isJSONWhiteSpace_def)

lemma JSON_parse_empty_array: "JSON_parse (js ''[]'') = Inr (JArray [])"
proof -
  have "js ''[]'' = [LBRACKET, RBRACKET]" by simp
  then show ?thesis
    by (simp only: JSON_parse_Suc parse_value_empty_array) simp
qed

lemma not_json: "JSON_parse (js ''not json'') = Inl SyntaxError"
  by (simp only: JSON_parse_Suc parse_value_not_json) simp

text \<open>
  The parser never uses up the bound \<open>JSON_parse\<close> gives it: every successful step
  consumes text, and a bound above twice the length of the text is enough in every mode.
\<close>

lemma length_skip_ws: "length (skip_ws s) \<le> length s"
  by (simp add: skip_ws_def length_dropWhile_le)

lemma skip_ws_Cons_length: "skip_ws s = c # r \<Longrightarrow> length r < length s"
  using length_skip_ws [of s] by simp

lemma consUnit_eq_Some:
  "consUnit c res = Some (str, r) \<longleftrightarrow> (\<exists>str'. res = Some (str', r) \<and> str = c # str')"
  by (cases res) (auto simp: consUnit_def)

lemma parse_chars_shorter:
  "parse_chars s = Some (str, r) \<Longrightarrow> length r < length s"
proof (induction "length s" arbitrary: s str r rule: less_induct)
  case less
  show ?case
  proof (cases s)
    case Nil
    with less.prems show ?thesis by simp
  next
    case (Cons c s1)
    have ih: "length r' < length s'" if "length s' < length s" "parse_chars s' = Some (str', r')"
      for s' str' r'
      using less.hyps [OF that(1) that(2)] .
    show ?thesis
    proof (cases "c = DQUOTE")
      case True
      with less.prems Cons show ?thesis by simp
    next
      case nq: False
      show ?thesis
      proof (cases "c = BACKSLASH")
        case False
        with nq less.prems Cons obtain str' where "parse_chars s1 = Some (str', r)"
          by (auto simp: consUnit_eq_Some split: if_splits)
        with ih [of s1 str' r] Cons show ?thesis by simp
      next
        case True
        with less.prems Cons obtain e s2 where s1: "s1 = e # s2"
          by (cases s1) auto
        show ?thesis
        proof (cases "e = 0x75")
          case False
          with True less.prems Cons s1 obtain str' where "parse_chars s2 = Some (str', r)"
            by (auto simp: consUnit_eq_Some split: option.splits)
          with ih [of s2 str' r] Cons s1 show ?thesis by simp
        next
          case u: True
          with True less.prems Cons s1 obtain a b c' d s3 str'
            where "s2 = a # b # c' # d # s3" "parse_chars s3 = Some (str', r)"
            by (auto simp: consUnit_eq_Some split: option.splits list.splits)
          with ih [of s3 str' r] Cons s1 show ?thesis by simp
        qed
      qed
    qed
  qed
qed

lemma strip_prefix_length:
  "strip_prefix p s = Some r \<Longrightarrow> length s = length p + length r"
  by (induction p s rule: strip_prefix.induct) (auto split: if_splits)

lemma lex_digits_shorter: "lex_digits s = Some (ds, r) \<Longrightarrow> length r < length s"
proof -
  assume a: "lex_digits s = Some (ds, r)"
  then have "takeWhile isDigit s \<noteq> []" and r: "r = dropWhile isDigit s"
    by (auto simp: lex_digits_def split: if_splits)
  moreover have "length (takeWhile isDigit s) + length (dropWhile isDigit s) = length s"
    by (metis length_append takeWhile_dropWhile_id)
  ultimately show ?thesis by (cases "takeWhile isDigit s") auto
qed

lemma lex_int_shorter: "lex_int s = Some (ip, r) \<Longrightarrow> length r < length s"
  by (auto simp: lex_int_def split: list.splits if_splits dest: lex_digits_shorter)

lemma lex_frac_shorter: "lex_frac s = Some (fp, r) \<Longrightarrow> length r \<le> length s"
  by (auto simp: lex_frac_def split: list.splits if_splits dest!: lex_digits_shorter)

lemma lex_sign_shorter: "lex_sign s = (sg, r) \<Longrightarrow> length r \<le> length s"
  by (auto simp: lex_sign_def split: list.splits if_splits)

lemma lex_exp_shorter: "lex_exp s = Some (ep, r) \<Longrightarrow> length r \<le> length s"
  by (auto simp: lex_exp_def split: list.splits if_splits prod.splits
      dest!: lex_digits_shorter lex_sign_shorter)

lemma lex_number_shorter: "lex_number s = Some (lx, r) \<Longrightarrow> length r < length s"
  by (auto simp: lex_number_def split: list.splits if_splits prod.splits option.splits
      dest!: lex_int_shorter lex_frac_shorter lex_exp_shorter)

lemma parse_json_fuel:
  "(case m of PValue \<Rightarrow> 0 | PElements _ \<Rightarrow> 1 | PMembers _ \<Rightarrow> 1) + 2 * length s < n \<Longrightarrow>
   \<exists>res. parse_json n m s = Some res \<and> (\<forall>v r. res = Inr (v, r) \<longrightarrow> length r < length s)"
proof (induction n arbitrary: m s)
  case 0
  then show ?case by simp
next
  case (Suc n)
  have ihV: "\<exists>res. parse_json n PValue s' = Some res \<and> (\<forall>v r. res = Inr (v, r) \<longrightarrow> length r < length s')"
    if "2 * length s' < n" for s'
    using Suc.IH [of PValue s'] that by simp
  have ihE: "\<exists>res. parse_json n (PElements acc) s' = Some res
      \<and> (\<forall>v r. res = Inr (v, r) \<longrightarrow> length r < length s')"
    if "1 + 2 * length s' < n" for s' acc
    using Suc.IH [of "PElements acc" s'] that by simp
  have ihM: "\<exists>res. parse_json n (PMembers acc) s' = Some res
      \<and> (\<forall>v r. res = Inr (v, r) \<longrightarrow> length r < length s')"
    if "1 + 2 * length s' < n" for s' acc
    using Suc.IH [of "PMembers acc" s'] that by simp
  show ?case
  proof (cases m)
    case PValue
    with Suc.prems have fuel: "2 * length s < Suc n" by simp
    show ?thesis
    proof (cases "skip_ws s")
      case Nil
      with PValue show ?thesis by (simp add: parse_json.simps)
    next
      case (Cons c r)
      then have r: "length r < length s" by (rule skip_ws_Cons_length)
      consider (obj) "c = LBRACE" | (arr) "c = LBRACKET" | (str) "c = DQUOTE"
        | (other) "c \<noteq> LBRACE" "c \<noteq> LBRACKET" "c \<noteq> DQUOTE"
        by blast
      then show ?thesis
      proof cases
        case obj
        show ?thesis
        proof (cases "skip_ws r")
          case Nil
          with PValue Cons obj show ?thesis by (simp add: parse_json.simps)
        next
          case inner: (Cons c' r')
          then have r': "length r' < length r" by (rule skip_ws_Cons_length)
          show ?thesis
          proof (cases "c' = RBRACE")
            case True
            with PValue Cons obj inner r r' show ?thesis by (simp add: parse_json.simps)
          next
            case False
            from r r' fuel have "1 + 2 * length (c' # r') < n" by simp
            from ihM [OF this, of "[]"] obtain res where
              "parse_json n (PMembers []) (c' # r') = Some res"
              "\<forall>v q. res = Inr (v, q) \<longrightarrow> length q < length (c' # r')"
              by blast
            with PValue Cons obj inner False r r' show ?thesis
              by (auto simp: parse_json.simps)
          qed
        qed
      next
        case arr
        show ?thesis
        proof (cases "skip_ws r")
          case Nil
          with PValue Cons arr show ?thesis by (simp add: parse_json.simps)
        next
          case inner: (Cons c' r')
          then have r': "length r' < length r" by (rule skip_ws_Cons_length)
          show ?thesis
          proof (cases "c' = RBRACKET")
            case True
            with PValue Cons arr inner r r' show ?thesis by (simp add: parse_json.simps)
          next
            case False
            from r r' fuel have "1 + 2 * length (c' # r') < n" by simp
            from ihE [OF this, of "[]"] obtain res where
              "parse_json n (PElements []) (c' # r') = Some res"
              "\<forall>v q. res = Inr (v, q) \<longrightarrow> length q < length (c' # r')"
              by blast
            with PValue Cons arr inner False r r' show ?thesis
              by (auto simp: parse_json.simps)
          qed
        qed
      next
        case str
        with PValue Cons r show ?thesis
          by (auto simp: parse_json.simps split: option.splits dest!: parse_chars_shorter)
      next
        case other
        with PValue Cons r show ?thesis
          by (auto simp: parse_json.simps split: option.splits
              dest!: strip_prefix_length lex_number_shorter)
      qed
    qed
  next
    case (PElements acc)
    with Suc.prems have fuel: "2 * length s < n" by simp
    from ihV [OF this] obtain res where
      res: "parse_json n PValue s = Some res" "\<forall>v q. res = Inr (v, q) \<longrightarrow> length q < length s"
      by blast
    show ?thesis
    proof (cases res)
      case (Inl e)
      with PElements res show ?thesis by (simp add: parse_json.simps)
    next
      case (Inr p)
      obtain v r where p: "p = (v, r)" by (cases p)
      with Inr res have r: "length r < length s" by simp
      show ?thesis
      proof (cases "skip_ws r")
        case Nil
        with PElements res Inr p show ?thesis by (simp add: parse_json.simps)
      next
        case (Cons c r')
        then have r': "length r' < length r" by (rule skip_ws_Cons_length)
        show ?thesis
        proof (cases "c = COMMA")
          case True
          from r r' fuel have "1 + 2 * length r' < n" by simp
          from ihE [OF this, of "acc @ [v]"] obtain res' where
            "parse_json n (PElements (acc @ [v])) r' = Some res'"
            "\<forall>v q. res' = Inr (v, q) \<longrightarrow> length q < length r'"
            by blast
          with PElements res Inr p Cons True r r' show ?thesis
            by (auto simp: parse_json.simps)
        next
          case False
          with PElements res Inr p Cons r r' show ?thesis
            by (simp add: parse_json.simps)
        qed
      qed
    qed
  next
    case (PMembers acc)
    with Suc.prems have fuel: "2 * length s < n" by simp
    show ?thesis
    proof (cases "skip_ws s")
      case Nil
      with PMembers show ?thesis by (simp add: parse_json.simps)
    next
      case (Cons c r)
      then have r: "length r < length s" by (rule skip_ws_Cons_length)
      show ?thesis
      proof (cases "c = DQUOTE")
        case False
        with PMembers Cons show ?thesis by (simp add: parse_json.simps)
      next
        case quote: True
        show ?thesis
        proof (cases "parse_chars r")
          case None
          with PMembers Cons quote show ?thesis by (simp add: parse_json.simps)
        next
          case (Some kp)
          obtain k r1 where kp: "kp = (k, r1)" by (cases kp)
          with Some have r1: "length r1 < length r" by (simp add: parse_chars_shorter)
          show ?thesis
          proof (cases "skip_ws r1")
            case Nil
            with PMembers Cons quote Some kp show ?thesis by (simp add: parse_json.simps)
          next
            case colon: (Cons c1 r2)
            then have r2: "length r2 < length r1" by (rule skip_ws_Cons_length)
            show ?thesis
            proof (cases "c1 = COLON")
              case False
              with PMembers Cons quote Some kp colon show ?thesis by (simp add: parse_json.simps)
            next
              case True
              from r r1 r2 fuel have "2 * length r2 < n" by simp
              from ihV [OF this] obtain res where
                res: "parse_json n PValue r2 = Some res"
                  "\<forall>v q. res = Inr (v, q) \<longrightarrow> length q < length r2"
                by blast
              show ?thesis
              proof (cases res)
                case (Inl e)
                with PMembers Cons quote Some kp colon True res show ?thesis
                  by (simp add: parse_json.simps)
              next
                case (Inr p)
                obtain v r3 where p: "p = (v, r3)" by (cases p)
                with Inr res have r3: "length r3 < length r2" by simp
                show ?thesis
                proof (cases "skip_ws r3")
                  case Nil
                  with PMembers Cons quote Some kp colon True res Inr p show ?thesis
                    by (simp add: parse_json.simps)
                next
                  case sep: (Cons c3 r4)
                  then have r4: "length r4 < length r3" by (rule skip_ws_Cons_length)
                  show ?thesis
                  proof (cases "c3 = COMMA")
                    case comma: True
                    from r r1 r2 r3 r4 fuel have "1 + 2 * length r4 < n" by simp
                    from ihM [OF this, of "put_property k v acc"] obtain res' where
                      "parse_json n (PMembers (put_property k v acc)) r4 = Some res'"
                      "\<forall>v q. res' = Inr (v, q) \<longrightarrow> length q < length r4"
                      by blast
                    with PMembers Cons quote Some kp colon True res Inr p sep comma
                      r r1 r2 r3 r4 show ?thesis
                      by (auto simp: parse_json.simps)
                  next
                    case False
                    with PMembers Cons quote Some kp colon True res Inr p sep
                      r r1 r2 r3 r4 show ?thesis
                      by (simp add: parse_json.simps)
                  qed
                qed
              qed
            qed
          qed
        qed
      qed
    qed
  qed
qed

lemma JSON_parse_fuel_suffices:
  "\<exists>res. parse_json (2 * length s + 2) PValue s = Some res"
  using parse_json_fuel [of PValue s "2 * length s + 2"] by auto

section \<open>Properties of loading and saving\<close>

lemma useLocalStorage_initialState_returns:
  "\<exists>v' w'. useLocalStorage_initialState w key v = Inr (v', w')"
  by (auto simp: useLocalStorage_initialState_def split: option.splits sum.splits)

lemma TodoList_initialState_returns:
  "\<exists>v'. TodoList_initialState w = Inr (v', w)"
  by (auto simp: TodoList_initialState_def split: option.splits sum.splits)

lemma useLocalStorage_effect_returns:
  "\<exists>w'. useLocalStorage_effect w key v = Inr (v, w')"
  by (auto simp: useLocalStorage_effect_def split: option.splits sum.splits)

lemma useLocalStorage_effect_failed_write:
  "window w = Some st \<Longrightarrow> setItem st key (JSON_stringify v) = Inl e \<Longrightarrow>
   useLocalStorage_effect w key v = Inr (v, console_error (Error_setting key e) w)"
  by (simp add: useLocalStorage_effect_def)

lemma TodoList_persistEffect_failed_write:
  "window w = Some st \<Longrightarrow> setItem st (js ''tasks'') (JSON_stringify (tasks_value L)) = Inl e \<Longrightarrow>
   TodoList_persistEffect w L = Inl e"
  by (simp add: TodoList_persistEffect_def)

lemma setItem_getItem:
  "setItem st key val = Inr st' \<Longrightarrow> getItem st' key = Inr (Some val)"
  by (auto simp: setItem_def getItem_def split: if_splits)

text \<open>
  C7. Round trip. For every task list \<open>L\<close>, the text \<^verbatim>\<open>JSON.stringify\<close> writes for \<open>L\<close> parses
  back to the array of the tasks of \<open>L\<close>, which read as a \<^verbatim>\<open>Task[]\<close> is \<open>L\<close> itself: same
  ids, texts and completed flags in the same order. With a storage area that accepts the
  write, saving \<open>L\<close> and then loading under the same key returns that value, through the
  component's own effect and initializer (key \<^verbatim>\<open>"tasks"\<close>) and through \<^verbatim>\<open>useLocalStorage\<close>
  (any key, any initial value).
\<close>

theorem persist_then_load_roundtrip:
  "JSON_parse (JSON_stringify (tasks_value L)) = Inr (tasks_value L)
   \<and> as_tasks (tasks_value L) = Some L
   \<and> (window w = Some st \<and> \<not> denied st \<and> \<not> full st \<longrightarrow>
        (\<exists>w'. TodoList_persistEffect w L = Inr (L, w')
           \<and> TodoList_initialState w' = Inr (tasks_value L, w'))
      \<and> (\<exists>w'. useLocalStorage_effect w key (tasks_value L) = Inr (tasks_value L, w')
           \<and> useLocalStorage_initialState w' key initialValue = Inr (tasks_value L, w')))"
proof -
  have rt: "JSON_parse (JSON_stringify (tasks_value L)) = Inr (tasks_value L)"
    by (rule JSON_parse_stringify_tasks)
  have ne: "JSON_stringify (tasks_value L) \<noteq> []"
    by (rule stringify_tasks_nonempty)
  have "\<exists>w'. TodoList_persistEffect w L = Inr (L, w')
           \<and> TodoList_initialState w' = Inr (tasks_value L, w')"
    if "window w = Some st \<and> \<not> denied st \<and> \<not> full st"
    using that rt ne
    by (simp add: TodoList_persistEffect_def TodoList_initialState_def setItem_def getItem_def)
  moreover have "\<exists>w'. useLocalStorage_effect w key (tasks_value L) = Inr (tasks_value L, w')
           \<and> useLocalStorage_initialState w' key initialValue = Inr (tasks_value L, w')"
    if "window w = Some st \<and> \<not> denied st \<and> \<not> full st"
    using that rt ne
    by (simp add: useLocalStorage_effect_def useLocalStorage_initialState_def setItem_def getItem_def)
  ultimately show ?thesis
    using rt as_tasks_tasks_value [of L] by blast
qed


theorem persist_then_load_roundtrip_witness:
  "as_tasks (tasks_value [\<lparr>task_id = js ''a'', task_text = js ''Buy milk'', completed = False\<rparr>])
     = Some [\<lparr>task_id = js ''a'', task_text = js ''Buy milk'', completed = False\<rparr>]
   \<and> (\<exists>w'. TodoList_persistEffect
          \<lparr>window = Some \<lparr>items = Map.empty, denied = False, full = False\<rparr>, console = []\<rparr>
          [\<lparr>task_id = js ''a'', task_text = js ''Buy milk'', completed = False\<rparr>]
        = Inr ([\<lparr>task_id = js ''a'', task_text = js ''Buy milk'', completed = False\<rparr>], w')
      \<and> TodoList_initialState w'
        = Inr (tasks_value [\<lparr>task_id = js ''a'', task_text = js ''Buy milk'', completed = False\<rparr>], w'))"
  using persist_then_load_roundtrip
    [of "[\<lparr>task_id = js ''a'', task_text = js ''Buy milk'', completed = False\<rparr>]"
        "\<lparr>window = Some \<lparr>items = Map.empty, denied = False, full = False\<rparr>, console = []\<rparr>"
        "\<lparr>items = Map.empty, denied = False, full = False\<rparr>" "js ''tasks''" "JArray []"]
  by simp

lemma console_error_changes: "console_error entry w \<noteq> w"
proof
  assume "console_error entry w = w"
  then have "console (console_error entry w) = console w" by simp
  then show False by (simp add: console_error_def)
qed

text \<open>
  When \<^verbatim>\<open>useLocalStorage\<close> logs on loading: the world after the call is the world before it
  (nothing logged) unless the \<^verbatim>\<open>try\<close> block throws, that is unless there is a window whose
  storage blocks the read or holds under the key a non-empty text that does not parse;
  then the world after the call has exactly the one new entry on the console.
\<close>

lemma useLocalStorage_initialState_log:
  "(\<exists>v'. useLocalStorage_initialState w key v = Inr (v', w))
   \<longleftrightarrow> \<not> (\<exists>st. window w = Some st
           \<and> (denied st \<or> (\<exists>raw e. items st key = Some raw \<and> raw \<noteq> [] \<and> JSON_parse raw = Inl e)))"
proof (cases "window w")
  case None
  then show ?thesis by (simp add: useLocalStorage_initialState_def)
next
  case (Some st)
  show ?thesis
  proof (cases "denied st")
    case True
    with Some show ?thesis
      by (simp add: useLocalStorage_initialState_def getItem_def console_error_changes)
  next
    case False
    show ?thesis
    proof (cases "items st key")
      case None
      with Some False show ?thesis
        by (simp add: useLocalStorage_initialState_def getItem_def)
    next
      case item: (Some raw)
      show ?thesis
      proof (cases "raw = []")
        case True
        with Some False item show ?thesis
          by (simp add: useLocalStorage_initialState_def getItem_def)
      next
        case ne: False
        show ?thesis
        proof (cases "JSON_parse raw")
          case (Inl e)
          with Some False item ne show ?thesis
            by (simp add: useLocalStorage_initialState_def getItem_def console_error_changes)
        next
          case (Inr v')
          with Some False item ne show ?thesis
            by (simp add: useLocalStorage_initialState_def getItem_def)
        qed
      qed
    qed
  qed
qed

lemma useLocalStorage_initialState_worlds:
  "useLocalStorage_initialState w key v = Inr (v', w') \<Longrightarrow>
   w' = w \<or> (v' = v \<and> (\<exists>e. w' = console_error (Error_reading key e) w))"
  by (auto simp: useLocalStorage_initialState_def split: option.splits sum.splits if_splits)

text \<open>
  C8, as stated, where the storage area is unavailable (no \<^verbatim>\<open>window\<close>): \<^verbatim>\<open>useLocalStorage\<close>
  returns the initial value and the console is as empty as before, so no failure was
  logged.
\<close>

theorem load_unavailable_counterexample:
  "useLocalStorage_initialState \<lparr>window = None, console = []\<rparr> (js ''tasks'') (JArray [])
   = Inr (JArray [], \<lparr>window = None, console = []\<rparr>)"
  by (simp add: useLocalStorage_initialState_def)

text \<open>
  C8, amended. For every key and initial value, loading never raises to the caller, in
  \<^verbatim>\<open>useLocalStorage\<close> and in the component's initializer, and returns the initial value
  (\<^verbatim>\<open>[]\<close> in the component) when the storage area is unavailable, when no value or the empty
  string is stored under the key, and when reading or parsing the stored string fails.
  \<^verbatim>\<open>useLocalStorage\<close> logs the failure exactly when its \<^verbatim>\<open>try\<close> block throws, that is on a
  failed parse and on a blocked read, and then logs one entry: without a window, without
  a stored value and with a stored text that parses (whose value it returns) the world
  after the call is the world before it. The witness has the scenario of the stored text
  \<^verbatim>\<open>not json\<close> under the key \<^verbatim>\<open>"tasks"\<close> with initial value \<^verbatim>\<open>[]\<close>, an empty storage and a
  stored text that parses.
\<close>

theorem load_falls_back_without_raising:
  "(\<exists>v' w'. useLocalStorage_initialState w key v = Inr (v', w'))
   \<and> (\<exists>v'. TodoList_initialState w = Inr (v', w))
   \<and> (window w = None \<longrightarrow>
        useLocalStorage_initialState w key v = Inr (v, w)
        \<and> TodoList_initialState w = Inr (JArray [], w))
   \<and> (window w = Some st \<and> \<not> denied st \<and> (items st key = None \<or> items st key = Some []) \<longrightarrow>
        useLocalStorage_initialState w key v = Inr (v, w))
   \<and> (window w = Some st \<and> \<not> denied st
        \<and> (items st (js ''tasks'') = None \<or> items st (js ''tasks'') = Some []) \<longrightarrow>
        TodoList_initialState w = Inr (JArray [], w))
   \<and> (window w = Some st \<and> \<not> denied st \<and> items st key = Some raw \<and> raw \<noteq> []
        \<and> JSON_parse raw = Inl e \<longrightarrow>
        useLocalStorage_initialState w key v = Inr (v, console_error (Error_reading key e) w))
   \<and> (window w = Some st \<and> \<not> denied st \<and> items st (js ''tasks'') = Some raw
        \<and> JSON_parse raw = Inl e \<longrightarrow>
        TodoList_initialState w = Inr (JArray [], w))
   \<and> (window w = Some st \<and> denied st \<longrightarrow>
        useLocalStorage_initialState w key v
          = Inr (v, console_error (Error_reading key SecurityError) w)
        \<and> TodoList_initialState w = Inr (JArray [], w))
   \<and> (window w = Some st \<and> \<not> denied st \<and> items st key = Some raw \<and> raw \<noteq> []
        \<and> JSON_parse raw = Inr parsed_value \<longrightarrow>
        useLocalStorage_initialState w key v = Inr (parsed_value, w))
   \<and> ((\<exists>v'. useLocalStorage_initialState w key v = Inr (v', w))
        \<longleftrightarrow> \<not> (\<exists>st'. window w = Some st'
              \<and> (denied st'
                 \<or> (\<exists>raw' e'. items st' key = Some raw' \<and> raw' \<noteq> []
                       \<and> JSON_parse raw' = Inl e'))))
   \<and> (\<forall>v' w'. useLocalStorage_initialState w key v = Inr (v', w') \<longrightarrow>
         w' = w \<or> (v' = v \<and> (\<exists>e'. w' = console_error (Error_reading key e') w)))
   \<and> (\<forall>entry. console_error entry w \<noteq> w)"
proof -
  have "\<exists>v' w'. useLocalStorage_initialState w key v = Inr (v', w')"
    by (rule useLocalStorage_initialState_returns)
  moreover have "window w = Some st \<and> \<not> denied st \<and> items st key = Some raw \<and> raw \<noteq> []
        \<and> JSON_parse raw = Inr parsed_value \<longrightarrow>
        useLocalStorage_initialState w key v = Inr (parsed_value, w)"
    by (simp add: useLocalStorage_initialState_def getItem_def)
  moreover have "(\<exists>v'. useLocalStorage_initialState w key v = Inr (v', w))
        \<longleftrightarrow> \<not> (\<exists>st'. window w = Some st'
              \<and> (denied st'
                 \<or> (\<exists>raw' e'. items st' key = Some raw' \<and> raw' \<noteq> []
                       \<and> JSON_parse raw' = Inl e')))"
    by (rule useLocalStorage_initialState_log)
  moreover have "\<forall>v' w'. useLocalStorage_initialState w key v = Inr (v', w') \<longrightarrow>
         w' = w \<or> (v' = v \<and> (\<exists>e'. w' = console_error (Error_reading key e') w))"
    using useLocalStorage_initialState_worlds [of w key v] by blast
  moreover have "\<forall>entry. console_error entry w \<noteq> w"
    by (simp add: console_error_changes)
  moreover have "\<exists>v'. TodoList_initialState w = Inr (v', w)"
    by (rule TodoList_initialState_returns)
  moreover have "window w = None \<longrightarrow>
        useLocalStorage_initialState w key v = Inr (v, w)
        \<and> TodoList_initialState w = Inr (JArray [], w)"
    by (simp add: useLocalStorage_initialState_def TodoList_initialState_def)
  moreover have "window w = Some st \<and> \<not> denied st
        \<and> (items st key = None \<or> items st key = Some []) \<longrightarrow>
        useLocalStorage_initialState w key v = Inr (v, w)"
    by (auto simp: useLocalStorage_initialState_def getItem_def)
  moreover have "window w = Some st \<and> \<not> denied st
        \<and> (items st (js ''tasks'') = None \<or> items st (js ''tasks'') = Some []) \<longrightarrow>
        TodoList_initialState w = Inr (JArray [], w)"
    by (auto simp: TodoList_initialState_def getItem_def simp del: js_simps)
  moreover have "window w = Some st \<and> \<not> denied st \<and> items st key = Some raw \<and> raw \<noteq> []
        \<and> JSON_parse raw = Inl e \<longrightarrow>
        useLocalStorage_initialState w key v = Inr (v, console_error (Error_reading key e) w)"
    by (simp add: useLocalStorage_initialState_def getItem_def)
  moreover have "window w = Some st \<and> \<not> denied st \<and> items st (js ''tasks'') = Some raw
        \<and> JSON_parse raw = Inl e \<longrightarrow>
        TodoList_initialState w = Inr (JArray [], w)"
    by (simp add: TodoList_initialState_def getItem_def del: js_simps)
  moreover have "window w = Some st \<and> denied st \<longrightarrow>
        useLocalStorage_initialState w key v
          = Inr (v, console_error (Error_reading key SecurityError) w)
        \<and> TodoList_initialState w = Inr (JArray [], w)"
    by (simp add: useLocalStorage_initialState_def TodoList_initialState_def getItem_def
        del: js_simps)
  ultimately show ?thesis by blast
qed

theorem load_falls_back_without_raising_witness:
  "JSON_parse (js ''not json'') = Inl SyntaxError
   \<and> useLocalStorage_initialState
        \<lparr>window = Some \<lparr>items = [js ''tasks'' \<mapsto> js ''not json''], denied = False, full = False\<rparr>,
         console = []\<rparr> (js ''tasks'') (JArray [])
      = Inr (JArray [],
          \<lparr>window = Some \<lparr>items = [js ''tasks'' \<mapsto> js ''not json''], denied = False, full = False\<rparr>,
           console = [Error_reading (js ''tasks'') SyntaxError]\<rparr>)
   \<and> TodoList_initialState
        \<lparr>window = Some \<lparr>items = [js ''tasks'' \<mapsto> js ''not json''], denied = False, full = False\<rparr>,
         console = []\<rparr>
      = Inr (JArray [],
          \<lparr>window = Some \<lparr>items = [js ''tasks'' \<mapsto> js ''not json''], denied = False, full = False\<rparr>,
           console = []\<rparr>)
   \<and> useLocalStorage_initialState
        \<lparr>window = Some \<lparr>items = Map.empty, denied = False, full = False\<rparr>, console = []\<rparr>
        (js ''tasks'') (JArray [])
      = Inr (JArray [],
          \<lparr>window = Some \<lparr>items = Map.empty, denied = False, full = False\<rparr>, console = []\<rparr>)
   \<and> JSON_parse (js ''[]'') = Inr (JArray [])
   \<and> useLocalStorage_initialState
        \<lparr>window = Some \<lparr>items = [js ''tasks'' \<mapsto> js ''[]''], denied = False, full = False\<rparr>,
         console = []\<rparr> (js ''tasks'') JNull
      = Inr (JArray [],
          \<lparr>window = Some \<lparr>items = [js ''tasks'' \<mapsto> js ''[]''], denied = False, full = False\<rparr>,
           console = []\<rparr>)"
proof -
  have nj: "JSON_parse (js ''not json'') = Inl SyntaxError"
    by (rule not_json)
  have ne: "js ''not json'' \<noteq> []"
    by simp
  have ea: "JSON_parse (js ''[]'') = Inr (JArray [])"
    by (rule JSON_parse_empty_array)
  have ne': "js ''[]'' \<noteq> []"
    by simp
  show ?thesis
    using nj ne ea ne'
      load_falls_back_without_raising
        [of "\<lparr>window = Some \<lparr>items = [js ''tasks'' \<mapsto> js ''[]''], denied = False, full = False\<rparr>,
             console = []\<rparr>" "js ''tasks''" JNull
            "\<lparr>items = [js ''tasks'' \<mapsto> js ''[]''], denied = False, full = False\<rparr>"
            "js ''[]''" SyntaxError "JArray []"]
      load_falls_back_without_raising
        [of "\<lparr>window = Some \<lparr>items = [js ''tasks'' \<mapsto> js ''not json''], denied = False, full = False\<rparr>,
             console = []\<rparr>" "js ''tasks''" "JArray []"
            "\<lparr>items = [js ''tasks'' \<mapsto> js ''not json''], denied = False, full = False\<rparr>"
            "js ''not json''" SyntaxError]
      load_falls_back_without_raising
        [of "\<lparr>window = Some \<lparr>items = Map.empty, denied = False, full = False\<rparr>, console = []\<rparr>"
            "js ''tasks''" "JArray []" "\<lparr>items = Map.empty, denied = False, full = False\<rparr>"
            "[]" SyntaxError]
    by (simp add: console_error_def)
qed

text \<open>
  C9. A failing write is logged and swallowed by \<^verbatim>\<open>useLocalStorage\<close>
  (\<open>useLocalStorage_effect_returns\<close>, \<open>useLocalStorage_effect_failed_write\<close>), and the value in
  memory stays. The component's own effect has no \<^verbatim>\<open>try\<close>: with a storage area that
  refuses writes, the exception of \<^verbatim>\<open>setItem\<close> reaches the caller of the effect and nothing
  is logged, for every task list \<open>L\<close>, where \<^verbatim>\<open>useLocalStorage\<close> in the same world returns
  normally with the failure on the console.
\<close>

theorem persist_effect_raises_on_failed_write:
  "TodoList_persistEffect
     \<lparr>window = Some \<lparr>items = Map.empty, denied = False, full = True\<rparr>, console = []\<rparr> L
   = Inl QuotaExceededError
   \<and> useLocalStorage_effect
       \<lparr>window = Some \<lparr>items = Map.empty, denied = False, full = True\<rparr>, console = []\<rparr>
       (js ''tasks'') (tasks_value L)
     = Inr (tasks_value L,
         \<lparr>window = Some \<lparr>items = Map.empty, denied = False, full = True\<rparr>,
          console = [Error_setting (js ''tasks'') QuotaExceededError]\<rparr>)"
  by (simp add: TodoList_persistEffect_def useLocalStorage_effect_def setItem_def console_error_def)

end
